theory Spec2Isabelle
  imports Complex_Main
begin

section \<open>The evaluation notebook \<open>demo.ipynb\<close>\<close>

text \<open>
  The notebook is a script of code cells. It calls collaborators that live outside the
  notebook: the environment constructor \<open>GeneralizedOvercooked\<close>, the agent
  constructor \<open>PPOAgent\<close>, the forward pass and \<open>load_weights\<close> of the agent's two
  networks, the episode runner \<open>evaluate_policy\<close>, and \<open>os.path.exists\<close>. The model
  threads a notebook state through the cells. The collaborators are parameters: each one
  maps the state of the outside world (files, random generators, the weights held by the
  networks) to a result or a raised exception and a new world. Every call of a
  collaborator is written to a trace with its outcome, so that the order of the calls can
  be stated. The notebook has no \<open>try\<close>: an exception raised by a collaborator ends the
  cell, and the variables of the notebook keep what was assigned before.

  Python floats are IEEE doubles, and \<open>np.mean\<close> and \<open>np.std\<close> compute in them as
  numpy does, every operation rounded to the nearest double. The keyword arguments that
  are the same in every call (\<open>arch_variant='deep'\<close>, \<open>use_reward_shaping=True\<close>,
  \<open>use_decay=True\<close>) are left out of the calls. The third cell, which prints the
  reward of the single-layout cell and shows its GIF, is not modelled.
\<close>

subsection \<open>Values\<close>

datatype exn =
    FileNotFoundError string
  | ValueError string
  | KeyError string
  | RuntimeError string

text \<open>An environment object: \<open>env_obs_dim\<close> is \<open>env.observation_space.shape[0]\<close>,
  \<open>env_act_dim\<close> is \<open>env.action_space.n\<close>. \<open>env_id\<close> is the identity of the object.\<close>

record env =
  env_id :: nat
  env_layouts :: "string list"
  env_obs_dim :: nat
  env_act_dim :: nat

text \<open>An agent object, with the dimensions its constructor was given.\<close>

record agent =
  agent_id :: nat
  agent_obs_dim :: nat
  agent_act_dim :: nat

text \<open>\<open>agent.policy\<close> and \<open>agent.value\<close>.\<close>

datatype net = PolicyNet | ValueNet

subsection \<open>Python floats\<close>

text \<open>
  A Python float is an IEEE 754 binary64 value. The finite ones are the reals
  \<open>m * 2^e\<close> with \<open>|m| < 2^53\<close> and \<open>-1074 \<le> e \<le> 971\<close>; they are the type
  \<open>double\<close>, and \<open>valof\<close> reads the real number a double stands for. The two zeros of the
  format are one value here (they compare equal in Python, and nothing below divides by a
  float). The rewards that the episode runner returns are finite floats.
\<close>

definition doubles :: "real set" where
  "doubles = {x. \<exists>m e. x = of_int m * 2 powi e \<and> \<bar>m\<bar> < 2 ^ 53 \<and> - 1074 \<le> e \<and> e \<le> 971}"

typedef double = doubles
  morphisms valof Abs_double
proof
  have "(0::real) = of_int 0 * 2 powi 0 \<and> \<bar>0::int\<bar> < 2 ^ 53 \<and> - 1074 \<le> (0::int) \<and> (0::int) \<le> 971"
    by simp
  then show "0 \<in> doubles" unfolding doubles_def by blast
qed

instantiation double :: zero
begin

definition zero_double :: double where
  "zero_double = Abs_double 0"

instance ..

end

text \<open>Rounding to the nearest integer, ties to the even one.\<close>

definition round_half_even :: "real \<Rightarrow> int" where
  "round_half_even y =
     (let f = \<lfloor>y\<rfloor> in
      if y - of_int f < 1 / 2 then f
      else if 1 / 2 < y - of_int f then f + 1
      else if even f then f else f + 1)"

text \<open>
  Rounding a real to binary64, to nearest with ties to even, before the check for overflow:
  a real \<open>x\<close> with \<open>2^k \<le> |x| < 2^(k+1)\<close> is rounded to a multiple of \<open>2^(k-52)\<close>, and
  to a multiple of \<open>2^-1074\<close> in the subnormal range.
\<close>

definition rnd :: "real \<Rightarrow> real" where
  "rnd x =
     (if x = 0 then 0
      else (let q = max (\<lfloor>log 2 \<bar>x\<bar>\<rfloor> - 52) (- 1074)
            in of_int (round_half_even (x / 2 powi q)) * 2 powi q))"

text \<open>The double nearest to a real of magnitude below the overflow threshold, as a float
  literal denotes it: \<open>dbl 3.8\<close> is Python's \<open>3.8\<close>.\<close>

definition dbl :: "real \<Rightarrow> double" where
  "dbl x = Abs_double (rnd x)"

text \<open>A float value of numpy: a finite double, an infinity or \<open>nan\<close>.\<close>

datatype np_float = Val double | PosInf | NegInf | NaN

text \<open>The result of an operation whose exact value is \<open>x\<close>: \<open>x\<close> rounded, or an infinity
  when the rounded value is beyond the largest double.\<close>

definition fl :: "real \<Rightarrow> np_float" where
  "fl x = (if 2 ^ 1024 \<le> \<bar>rnd x\<bar> then (if 0 < x then PosInf else NegInf) else Val (dbl x))"

fun fadd :: "np_float \<Rightarrow> np_float \<Rightarrow> np_float" where
  "fadd (Val x) (Val y) = fl (valof x + valof y)"
| "fadd NaN b = NaN"
| "fadd a NaN = NaN"
| "fadd PosInf NegInf = NaN"
| "fadd NegInf PosInf = NaN"
| "fadd PosInf b = PosInf"
| "fadd a PosInf = PosInf"
| "fadd NegInf b = NegInf"
| "fadd a NegInf = NegInf"

fun fneg :: "np_float \<Rightarrow> np_float" where
  "fneg (Val x) = fl (- valof x)"
| "fneg PosInf = NegInf"
| "fneg NegInf = PosInf"
| "fneg NaN = NaN"

definition fsub :: "np_float \<Rightarrow> np_float \<Rightarrow> np_float" where
  "fsub a b = fadd a (fneg b)"

fun fmul :: "np_float \<Rightarrow> np_float \<Rightarrow> np_float" where
  "fmul (Val x) (Val y) = fl (valof x * valof y)"
| "fmul NaN b = NaN"
| "fmul a NaN = NaN"
| "fmul (Val x) b =
     (if valof x = 0 then NaN else if (0 < valof x) = (b = PosInf) then PosInf else NegInf)"
| "fmul a (Val y) =
     (if valof y = 0 then NaN else if (0 < valof y) = (a = PosInf) then PosInf else NegInf)"
| "fmul a b = (if a = b then PosInf else NegInf)"

fun fsqrt :: "np_float \<Rightarrow> np_float" where
  "fsqrt (Val x) = (if valof x < 0 then NaN else fl (sqrt (valof x)))"
| "fsqrt PosInf = PosInf"
| "fsqrt NegInf = NaN"
| "fsqrt NaN = NaN"

text \<open>Division of a float by a count of elements (\<open>ret / rcount\<close>): the count is
  converted to a float first, and a count of zero divides by zero.\<close>

fun fdiv_count :: "np_float \<Rightarrow> nat \<Rightarrow> np_float" where
  "fdiv_count (Val x) n =
     (if n = 0 then (if valof x = 0 then NaN else if 0 < valof x then PosInf else NegInf)
      else fl (valof x / rnd (real n)))"
| "fdiv_count PosInf n = PosInf"
| "fdiv_count NegInf n = NegInf"
| "fdiv_count NaN n = NaN"

subsection \<open>\<open>np.mean\<close> and \<open>np.std\<close>\<close>

text \<open>
  numpy adds the elements of a float array pairwise (\<open>pairwise_sum\<close> of its
  \<open>add\<close> loop): fewer than 8 elements are added one by one from 0; up to 128 elements
  are added into 8 running sums, block by block of 8, the 8 sums are added as a balanced
  tree and the elements left over are added one by one; a longer array is split in two
  near its middle, at a multiple of 8. The reduction \<open>np.add.reduce\<close> adds the result to
  its initial value 0.
\<close>

fun add_blocks :: "np_float list \<Rightarrow> np_float list \<Rightarrow> np_float list \<times> np_float list" where
  "add_blocks r (a0 # a1 # a2 # a3 # a4 # a5 # a6 # a7 # a) =
     add_blocks (map2 fadd r [a0, a1, a2, a3, a4, a5, a6, a7]) a"
| "add_blocks r a = (r, a)"

fun sum8 :: "np_float list \<Rightarrow> np_float" where
  "sum8 [r0, r1, r2, r3, r4, r5, r6, r7] =
     fadd (fadd (fadd r0 r1) (fadd r2 r3)) (fadd (fadd r4 r5) (fadd r6 r7))"
| "sum8 r = Val 0"

function pairwise_sum :: "np_float list \<Rightarrow> np_float" where
  "pairwise_sum a =
     (if length a < 8 then foldl fadd (Val 0) a
      else if length a \<le> 128 then
        (case add_blocks (take 8 a) (drop 8 a) of (r, rest) \<Rightarrow> foldl fadd (sum8 r) rest)
      else fadd (pairwise_sum (take (length a div 2 - length a div 2 mod 8) a))
             (pairwise_sum (drop (length a div 2 - length a div 2 mod 8) a)))"
  by pat_completeness auto
termination
  by (relation "measure length") auto

declare pairwise_sum.simps [simp del]

definition np_sum :: "np_float list \<Rightarrow> np_float" where
  "np_sum a = fadd (Val 0) (pairwise_sum a)"

text \<open>\<open>np.mean\<close> of a list of floats: the sum divided by the number of elements. Of an
  empty list it is \<open>nan\<close> (with a warning), not an exception.\<close>

definition np_mean :: "double list \<Rightarrow> np_float" where
  "np_mean rewards =
     (let arr = map Val rewards;
          rcount = length arr;
          ret = np_sum arr
      in fdiv_count ret rcount)"

text \<open>\<open>np.std\<close> with its default \<open>ddof=0\<close>: the mean is subtracted from every
  element, the differences are multiplied by themselves and summed, the sum is divided
  by the number of elements, and the root is taken.\<close>

definition np_std :: "double list \<Rightarrow> np_float" where
  "np_std rewards =
     (let arr = map Val rewards;
          rcount = length arr;
          arrmean = fdiv_count (np_sum arr) rcount;
          x = map (\<lambda>a. fsub a arrmean) arr;
          x = map (\<lambda>v. fmul v v) x;
          ret = fdiv_count (np_sum x) rcount
      in fsqrt ret)"

subsection \<open>Calls of the collaborators\<close>

datatype call =
    EnvNew "string list"
  | AgentNew nat nat
  | Forward net agent nat
  | LoadWeights net agent string
  | EvaluatePolicy agent env bool bool "string option"

datatype ret =
    Raised exn
  | GotEnv env
  | GotAgent agent
  | Done
  | Reward double

type_synonym event = "call \<times> ret"

record 'w externs =
  GeneralizedOvercooked :: "string list \<Rightarrow> 'w \<Rightarrow> (exn + nat \<times> nat) \<times> 'w"
  PPOAgent :: "nat \<Rightarrow> nat \<Rightarrow> 'w \<Rightarrow> (exn + unit) \<times> 'w"
  forward_pass :: "net \<Rightarrow> agent \<Rightarrow> nat \<Rightarrow> 'w \<Rightarrow> (exn + unit) \<times> 'w"
  load_weights :: "net \<Rightarrow> agent \<Rightarrow> string \<Rightarrow> 'w \<Rightarrow> (exn + unit) \<times> 'w"
  evaluate_policy ::
    "agent \<Rightarrow> env \<Rightarrow> bool \<Rightarrow> bool \<Rightarrow> string option \<Rightarrow> 'w \<Rightarrow> (exn + double) \<times> 'w"
  path_exists :: "string \<Rightarrow> 'w \<Rightarrow> bool"

subsection \<open>Output of the notebook\<close>

text \<open>A printed line is a list of pieces: literal text, a string padded to a width
  (\<open>{:<25}\<close>, \<open>{:>8}\<close>) and a float printed with two decimals (\<open>{:.2f}\<close>,
  \<open>{:>8.2f}\<close>). \<open>Image\<close> is \<open>display(Image(filename=...))\<close>.\<close>

datatype piece =
    Lit string
  | PadRight nat string
  | PadLeft nat string
  | Fixed2 nat np_float

datatype out = Line "piece list" | Image string

subsection \<open>Notebook state\<close>

record 'w nstate =
  world :: 'w
  next_obj :: nat
  trace :: "event list"
  stdout :: "out list"
  results_greedy_cramped_room :: "(string \<times> double \<times> string) list"
  results_greedy :: "(string \<times> double \<times> string) list"
  results_sampling :: "(string \<times> np_float \<times> np_float \<times> string) list"

type_synonym ('w, 'a) nb = "'w nstate \<Rightarrow> (exn + 'a) \<times> 'w nstate"

definition return_nb :: "'a \<Rightarrow> ('w, 'a) nb" where
  "return_nb x s = (Inr x, s)"

text \<open>Sequencing: an exception of the first statement ends the cell; nothing in the
  notebook catches one.\<close>

definition bind_nb :: "('w, 'a) nb \<Rightarrow> ('a \<Rightarrow> ('w, 'b) nb) \<Rightarrow> ('w, 'b) nb" where
  "bind_nb m f s = (case m s of (Inl e, s1) \<Rightarrow> (Inl e, s1) | (Inr x, s1) \<Rightarrow> f x s1)"

definition py_print :: "piece list \<Rightarrow> ('w, unit) nb" where
  "py_print ps s = (Inr (), s\<lparr>stdout := stdout s @ [Line ps]\<rparr>)"

text \<open>\<open>for x in xs: body\<close>\<close>

fun for_each :: "'a list \<Rightarrow> ('a \<Rightarrow> ('w, unit) nb) \<Rightarrow> ('w, unit) nb" where
  "for_each [] body s = (Inr (), s)"
| "for_each (x # xs) body s =
     (case body x s of (Inl e, s1) \<Rightarrow> (Inl e, s1) | (Inr u, s1) \<Rightarrow> for_each xs body s1)"

subsection \<open>The collaborators as called from the notebook\<close>

definition new_env :: "'w externs \<Rightarrow> string list \<Rightarrow> ('w, env) nb" where
  "new_env ext layouts s =
     (case GeneralizedOvercooked ext layouts (world s) of
        (Inl e, w) \<Rightarrow>
          (Inl e, s\<lparr>world := w, trace := trace s @ [(EnvNew layouts, Raised e)]\<rparr>)
      | (Inr (od, ad), w) \<Rightarrow>
          (let env = \<lparr>env_id = next_obj s, env_layouts = layouts,
                      env_obs_dim = od, env_act_dim = ad\<rparr>
           in (Inr env, s\<lparr>world := w, next_obj := Suc (next_obj s),
                           trace := trace s @ [(EnvNew layouts, GotEnv env)]\<rparr>)))"

definition new_agent :: "'w externs \<Rightarrow> nat \<Rightarrow> nat \<Rightarrow> ('w, agent) nb" where
  "new_agent ext obs_dim act_dim s =
     (case PPOAgent ext obs_dim act_dim (world s) of
        (Inl e, w) \<Rightarrow>
          (Inl e, s\<lparr>world := w, trace := trace s @ [(AgentNew obs_dim act_dim, Raised e)]\<rparr>)
      | (Inr u, w) \<Rightarrow>
          (let agent = \<lparr>agent_id = next_obj s, agent_obs_dim = obs_dim,
                        agent_act_dim = act_dim\<rparr>
           in (Inr agent, s\<lparr>world := w, next_obj := Suc (next_obj s),
                             trace := trace s @ [(AgentNew obs_dim act_dim, GotAgent agent)]\<rparr>)))"

definition ext_call ::
  "call \<Rightarrow> ('a \<Rightarrow> ret) \<Rightarrow> ('w \<Rightarrow> (exn + 'a) \<times> 'w) \<Rightarrow> ('w, 'a) nb" where
  "ext_call c mk f s =
     (case f (world s) of
        (Inl e, w) \<Rightarrow> (Inl e, s\<lparr>world := w, trace := trace s @ [(c, Raised e)]\<rparr>)
      | (Inr x, w) \<Rightarrow> (Inr x, s\<lparr>world := w, trace := trace s @ [(c, mk x)]\<rparr>))"

definition do_forward :: "'w externs \<Rightarrow> net \<Rightarrow> agent \<Rightarrow> nat \<Rightarrow> ('w, unit) nb" where
  "do_forward ext n agent obs_dim =
     ext_call (Forward n agent obs_dim) (\<lambda>u. Done) (forward_pass ext n agent obs_dim)"

definition do_load_weights :: "'w externs \<Rightarrow> net \<Rightarrow> agent \<Rightarrow> string \<Rightarrow> ('w, unit) nb" where
  "do_load_weights ext n agent path =
     ext_call (LoadWeights n agent path) (\<lambda>u. Done) (load_weights ext n agent path)"

definition do_evaluate_policy ::
  "'w externs \<Rightarrow> agent \<Rightarrow> env \<Rightarrow> bool \<Rightarrow> bool \<Rightarrow> string option \<Rightarrow> ('w, double) nb" where
  "do_evaluate_policy ext agent env greedy save_gif gif_path =
     ext_call (EvaluatePolicy agent env greedy save_gif gif_path) Reward
       (evaluate_policy ext agent env greedy save_gif gif_path)"

subsection \<open>Cell 1: \<open>show_gif\<close>\<close>

definition show_gif :: "'w externs \<Rightarrow> string \<Rightarrow> ('w, unit) nb" where
  "show_gif ext gif_path s =
     (if path_exists ext gif_path (world s)
      then (Inr (), s\<lparr>stdout := stdout s @ [Image gif_path]\<rparr>)
      else py_print [Lit ''GIF not found: '', Lit gif_path] s)"

subsection \<open>Environment and agent for a layout\<close>

text \<open>
  The three evaluation cells build the environment and the agent with the same
  statements (lines 61 to 73, 137 to 149 and 203 to 211 of the notebook file):
  the environment, \<open>obs_dim\<close> and \<open>act_dim\<close> read from it, the agent built from them,
  one forward pass of each network, then the weights of each network.
\<close>

definition prepare ::
  "'w externs \<Rightarrow> string list \<Rightarrow> string \<Rightarrow> string \<Rightarrow> ('w, agent \<times> env) nb" where
  "prepare ext layouts policy_weights value_weights =
     bind_nb (new_env ext layouts) (\<lambda>env.
     let obs_dim = env_obs_dim env; act_dim = env_act_dim env in
     bind_nb (new_agent ext obs_dim act_dim) (\<lambda>agent.
     bind_nb (do_forward ext PolicyNet agent obs_dim) (\<lambda>u.
     bind_nb (do_forward ext ValueNet agent obs_dim) (\<lambda>u.
     bind_nb (do_load_weights ext PolicyNet agent policy_weights) (\<lambda>u.
     bind_nb (do_load_weights ext ValueNet agent value_weights) (\<lambda>u.
     return_nb (agent, env)))))))"

subsection \<open>Cell 2: one layout, greedy\<close>

definition policy_weights_cramped_room :: string where
  "policy_weights_cramped_room =
     ''cramped_room/checkpoints/policy_PPO_deep_shaping-decay-15000new_setup_15000_full_log_2_final.weights.h5''"

definition value_weights_cramped_room :: string where
  "value_weights_cramped_room =
     ''cramped_room/checkpoints/value_PPO_deep_shaping-decay-15000new_setup_15000_full_log_2_final.weights.h5''"

definition cramped_room_cell :: "'w externs \<Rightarrow> ('w, unit) nb" where
  "cramped_room_cell ext s0 =
     (let s = s0\<lparr>results_greedy_cramped_room := []\<rparr> in
      bind_nb (prepare ext [''cramped_room''] policy_weights_cramped_room
                 value_weights_cramped_room) (\<lambda>(agent, env).
      let gif_path = ''demo/cramped_room/cramped_room_eval_greedy.gif'' in
      bind_nb (do_evaluate_policy ext agent env True True (Some gif_path)) (\<lambda>reward s1.
      py_print [Lit ''Greedy reward on cramped_room: '', Fixed2 0 (Val reward)]
        (s1\<lparr>results_greedy_cramped_room :=
              results_greedy_cramped_room s1 @ [(''cramped_room'', reward, gif_path)]\<rparr>))) s)"

subsection \<open>Cell 4: greedy evaluation of the layouts\<close>

definition test_layouts :: "string list" where
  "test_layouts = [''cramped_room'', ''asymmetric_advantages'', ''forced_coordination'']"

definition policy_weights :: string where
  "policy_weights =
     ''generalization/multilayout_checkpoints/policy_PPO_deep_shaping-decay-20000multilayout_run_20000_final.weights.h5''"

definition value_weights :: string where
  "value_weights =
     ''generalization/multilayout_checkpoints/value_PPO_deep_shaping-decay-20000multilayout_run_20000_final.weights.h5''"

definition greedy_gif_path :: "string \<Rightarrow> string" where
  "greedy_gif_path layout = ''demo/generalization/'' @ layout @ ''_eval_greedy.gif''"

definition greedy_layout :: "'w externs \<Rightarrow> string \<Rightarrow> string \<Rightarrow> string \<Rightarrow> ('w, unit) nb" where
  "greedy_layout ext pw vw layout =
     bind_nb (py_print [Lit (CHR 0x0A # ''[Greedy Eval] Layout: ''), Lit layout]) (\<lambda>u.
     bind_nb (prepare ext [layout] pw vw) (\<lambda>(agent, env).
     let gif_path = greedy_gif_path layout in
     bind_nb (do_evaluate_policy ext agent env True True (Some gif_path)) (\<lambda>reward s1.
     py_print [Lit ''Greedy reward on '', Lit layout, Lit '': '', Fixed2 0 (Val reward)]
       (s1\<lparr>results_greedy := results_greedy s1 @ [(layout, reward, gif_path)]\<rparr>))))"

definition greedy_sweep ::
  "'w externs \<Rightarrow> string \<Rightarrow> string \<Rightarrow> string list \<Rightarrow> ('w, unit) nb" where
  "greedy_sweep ext pw vw layouts s =
     for_each layouts (greedy_layout ext pw vw) (s\<lparr>results_greedy := []\<rparr>)"

subsection \<open>Cell 5: the greedy results and GIFs\<close>

definition greedy_report :: "'w externs \<Rightarrow> ('w, unit) nb" where
  "greedy_report ext s =
     bind_nb (py_print [Lit (CHR 0x0A # ''===== Greedy Evaluation Results ====='')]) (\<lambda>u.
     bind_nb (py_print [PadRight 25 ''Layout'', Lit '' | '', PadLeft 8 ''Reward'']) (\<lambda>u.
     bind_nb (py_print [Lit (replicate 36 CHR ''-'')]) (\<lambda>u.
     bind_nb (for_each (results_greedy s) (\<lambda>(layout, reward, g).
                py_print [PadRight 25 layout, Lit '' | '', Fixed2 8 (Val reward)])) (\<lambda>u.
     bind_nb (py_print [Lit (CHR 0x0A # ''=== Greedy Evaluation GIFs ==='')]) (\<lambda>u.
     for_each (results_greedy s) (\<lambda>(layout, r, gif_path).
       bind_nb (py_print [Lit ''Layout: cramped_room'']) (\<lambda>u.
       show_gif ext gif_path))))))) s"

subsection \<open>Cell 6: sampling evaluation of the layouts\<close>

definition sampling_gif_path :: "string \<Rightarrow> string" where
  "sampling_gif_path layout = ''demo/generalization/'' @ layout @ ''_eval_sampling.gif''"

definition sampling_recorded_path :: "string \<Rightarrow> string" where
  "sampling_recorded_path layout = ''generalization/'' @ layout @ ''/eval_sampling.gif''"

text \<open>\<open>for i in range(N_RUNS)\<close>, with the list \<open>rewards\<close> it appends to.\<close>

fun sampling_runs ::
  "'w externs \<Rightarrow> agent \<Rightarrow> env \<Rightarrow> string \<Rightarrow> nat list \<Rightarrow> double list \<Rightarrow> ('w, double list) nb" where
  "sampling_runs ext agent env layout [] rewards s = (Inr rewards, s)"
| "sampling_runs ext agent env layout (i # is) rewards s =
     (let gif_path = (if i = 0 then Some (sampling_gif_path layout) else None) in
      case do_evaluate_policy ext agent env False (i = 0) gif_path s of
        (Inl e, s1) \<Rightarrow> (Inl e, s1)
      | (Inr reward, s1) \<Rightarrow> sampling_runs ext agent env layout is (rewards @ [reward]) s1)"

text \<open>The body of \<open>for layout in test_layouts\<close>. The plus-minus sign of the last
  \<open>print\<close> is written \<open>+-\<close>.\<close>

definition sampling_layout ::
  "'w externs \<Rightarrow> string \<Rightarrow> string \<Rightarrow> nat \<Rightarrow> string \<Rightarrow> ('w, unit) nb" where
  "sampling_layout ext pw vw N_RUNS layout =
     bind_nb (py_print [Lit (CHR 0x0A # ''[Sampling Eval] Layout: ''), Lit layout]) (\<lambda>u.
     bind_nb (prepare ext [layout] pw vw) (\<lambda>(agent, env).
     bind_nb (sampling_runs ext agent env layout [0 ..< N_RUNS] []) (\<lambda>rewards s1.
     let mean_reward = np_mean rewards;
         std_reward = np_std rewards
     in py_print [Lit ''Sampling eval on '', Lit layout, Lit '': mean='',
                  Fixed2 0 mean_reward, Lit '' +- '', Fixed2 0 std_reward]
          (s1\<lparr>results_sampling := results_sampling s1 @
                [(layout, mean_reward, std_reward, sampling_recorded_path layout)]\<rparr>))))"

definition sampling_sweep ::
  "'w externs \<Rightarrow> string \<Rightarrow> string \<Rightarrow> nat \<Rightarrow> string list \<Rightarrow> ('w, unit) nb" where
  "sampling_sweep ext pw vw N_RUNS layouts s =
     for_each layouts (sampling_layout ext pw vw N_RUNS) (s\<lparr>results_sampling := []\<rparr>)"

subsection \<open>Cell 7: the sampling results and GIFs\<close>

definition sampling_report :: "'w externs \<Rightarrow> ('w, unit) nb" where
  "sampling_report ext s =
     bind_nb (py_print [Lit (CHR 0x0A # ''===== Sampling Evaluation Results ====='')]) (\<lambda>u.
     bind_nb (py_print [PadRight 25 ''Layout'', Lit '' | '', PadLeft 8 ''Mean'',
                        Lit '' | '', PadLeft 8 ''Std'']) (\<lambda>u.
     bind_nb (py_print [Lit (replicate 46 CHR ''-'')]) (\<lambda>u.
     bind_nb (for_each (results_sampling s) (\<lambda>(layout, mean, std, g).
                py_print [PadRight 25 layout, Lit '' | '', Fixed2 8 mean,
                          Lit '' | '', Fixed2 8 std])) (\<lambda>u.
     bind_nb (py_print [Lit (CHR 0x0A # ''=== Sampling Evaluation GIFs ==='')]) (\<lambda>u.
     for_each (results_sampling s) (\<lambda>(layout, m, sd, gif_path).
       bind_nb (py_print [Lit ''Layout: '', Lit layout]) (\<lambda>u.
       show_gif ext gif_path))))))) s"


subsection \<open>Action selection of the episode runner\<close>

text \<open>
  Modelled from the spec: the two policy modes of the missing episode runner (section 4.1
  of the specification); the notebook selects them with \<open>greedy=True\<close> and
  \<open>greedy=False\<close>.
\<close>

datatype mode = GREEDY | SAMPLED

text \<open>
  Modelled from the spec: the episode runner \<open>evaluate_policy\<close>
  (\<open>training/evaluate_selfplay.py\<close>) is imported by the notebook and is not among the
  sources, so its action selection is written from section 4.1 of the specification:
  GREEDY picks the action with the highest probability in the distribution, ties broken by
  the lowest action index. The scan keeps the first maximum: a later entry replaces the
  best one only when it is strictly larger.
\<close>

fun argmax_from :: "real list \<Rightarrow> nat \<Rightarrow> nat \<Rightarrow> real \<Rightarrow> nat" where
  "argmax_from [] i best best_p = best"
| "argmax_from (q # qs) i best best_p =
     (if best_p < q then argmax_from qs (Suc i) i q
      else argmax_from qs (Suc i) best best_p)"

text \<open>
  Modelled from the spec: the greedy choice of the missing episode runner, over a
  probability vector; an empty vector has no action.
\<close>

definition greedy_action :: "real list \<Rightarrow> nat option" where
  "greedy_action probs = (case probs of [] \<Rightarrow> None | q # qs \<Rightarrow> Some (argmax_from qs 1 0 q))"

text \<open>
  Modelled from the spec: the action selection of the missing episode runner in its two
  modes. SAMPLED draws one action with a pseudo-random draw; the draw is a parameter over
  the state of the generator. GREEDY does not touch the generator.
\<close>

definition select_action ::
  "mode \<Rightarrow> (real list \<Rightarrow> 'g \<Rightarrow> nat option \<times> 'g) \<Rightarrow> real list \<Rightarrow> 'g \<Rightarrow> nat option \<times> 'g" where
  "select_action m draw probs g =
     (case m of GREEDY \<Rightarrow> (greedy_action probs, g) | SAMPLED \<Rightarrow> draw probs g)"

section \<open>Reading the trace\<close>

text \<open>The events a cell has added to the trace.\<close>

definition new_events :: "'w nstate \<Rightarrow> 'w nstate \<Rightarrow> event list" where
  "new_events s s' = drop (length (trace s)) (trace s')"

text \<open>The calls of \<open>evaluate_policy\<close>, in order, with their arguments.\<close>

definition episode_calls ::
  "event list \<Rightarrow> (agent \<times> env \<times> bool \<times> bool \<times> string option) list" where
  "episode_calls evs =
     concat (map (\<lambda>ev. case fst ev of
                          EvaluatePolicy agent env g sg p \<Rightarrow> [(agent, env, g, sg, p)]
                        | _ \<Rightarrow> []) evs)"

text \<open>The \<open>save_gif\<close> and \<open>gif_path\<close> arguments of the calls of \<open>evaluate_policy\<close>.\<close>

definition episode_captures :: "event list \<Rightarrow> (bool \<times> string option) list" where
  "episode_captures evs = map (\<lambda>(agent, env, g, sg, p). (sg, p)) (episode_calls evs)"

text \<open>The rewards \<open>evaluate_policy\<close> has returned, in order.\<close>

definition episode_rewards :: "event list \<Rightarrow> double list" where
  "episode_rewards evs =
     concat (map (\<lambda>ev. case ev of
                          (EvaluatePolicy agent env g sg p, Reward r) \<Rightarrow> [r]
                        | _ \<Rightarrow> []) evs)"

definition created_envs :: "event list \<Rightarrow> env list" where
  "created_envs evs = concat (map (\<lambda>ev. case snd ev of GotEnv env \<Rightarrow> [env] | _ \<Rightarrow> []) evs)"

definition created_agents :: "event list \<Rightarrow> agent list" where
  "created_agents evs =
     concat (map (\<lambda>ev. case snd ev of GotAgent agent \<Rightarrow> [agent] | _ \<Rightarrow> []) evs)"

text \<open>The dimensions passed to the agent constructor, whether or not it returned.\<close>

definition agent_new_args :: "event list \<Rightarrow> (nat \<times> nat) list" where
  "agent_new_args evs =
     concat (map (\<lambda>ev. case fst ev of AgentNew od ad \<Rightarrow> [(od, ad)] | _ \<Rightarrow> []) evs)"

definition env_dims :: "env \<Rightarrow> nat \<times> nat" where
  "env_dims env = (env_obs_dim env, env_act_dim env)"

definition dims_match :: "agent \<times> env \<times> bool \<times> bool \<times> string option \<Rightarrow> bool" where
  "dims_match c =
     (case c of (agent, env, rest) \<Rightarrow>
        agent_obs_dim agent = env_obs_dim env \<and> agent_act_dim agent = env_act_dim env)"

text \<open>The exceptions raised by \<open>load_weights\<close>.\<close>

definition failed_loads :: "event list \<Rightarrow> exn list" where
  "failed_loads evs =
     concat (map (\<lambda>ev. case ev of
                          (LoadWeights n agent path, Raised e) \<Rightarrow> [e]
                        | _ \<Rightarrow> []) evs)"

text \<open>A scan of the trace: \<open>loaded\<close> collects the networks whose weights have been
  loaded; every call of \<open>evaluate_policy\<close> must find both networks of its agent there.\<close>

fun loads_precede_runs :: "(net \<times> agent) list \<Rightarrow> event list \<Rightarrow> bool" where
  "loads_precede_runs loaded [] = True"
| "loads_precede_runs loaded (ev # evs) =
     (case ev of
        (LoadWeights n agent path, Done) \<Rightarrow> loads_precede_runs ((n, agent) # loaded) evs
      | (EvaluatePolicy agent env g sg p, r) \<Rightarrow>
          (PolicyNet, agent) \<in> set loaded \<and> (ValueNet, agent) \<in> set loaded \<and>
          loads_precede_runs loaded evs
      | _ \<Rightarrow> loads_precede_runs loaded evs)"

text \<open>The events of a preparation in which every call returns.\<close>

definition prepare_events ::
  "string list \<Rightarrow> string \<Rightarrow> string \<Rightarrow> agent \<Rightarrow> env \<Rightarrow> event list" where
  "prepare_events layouts pw vw agent env =
     [(EnvNew layouts, GotEnv env),
      (AgentNew (env_obs_dim env) (env_act_dim env), GotAgent agent),
      (Forward PolicyNet agent (env_obs_dim env), Done),
      (Forward ValueNet agent (env_obs_dim env), Done),
      (LoadWeights PolicyNet agent pw, Done),
      (LoadWeights ValueNet agent vw, Done)]"

text \<open>The events of episodes that return the rewards \<open>rs\<close>; \<open>sg i\<close> and \<open>gp i\<close> are
  the \<open>save_gif\<close> and \<open>gif_path\<close> arguments of run \<open>i\<close>.\<close>

definition run_events ::
  "agent \<Rightarrow> env \<Rightarrow> bool \<Rightarrow> (nat \<Rightarrow> bool) \<Rightarrow> (nat \<Rightarrow> string option) \<Rightarrow> double list \<Rightarrow> event list" where
  "run_events agent env g sg gp rs =
     map (\<lambda>i. (EvaluatePolicy agent env g (sg i) (gp i), Reward (rs ! i))) [0 ..< length rs]"

text \<open>The three shapes the events of one evaluation section can take: a call of the
  preparation raises; an episode raises after some episodes have returned; or everything
  returns.\<close>

definition section_events ::
  "exn + unit \<Rightarrow> string list \<Rightarrow> string \<Rightarrow> string \<Rightarrow> bool \<Rightarrow> (nat \<Rightarrow> bool) \<Rightarrow>
   (nat \<Rightarrow> string option) \<Rightarrow> nat \<Rightarrow> event list \<Rightarrow> bool" where
  "section_events res layouts pw vw g sg gp n evs \<longleftrightarrow>
     (\<exists>agent env.
        (\<exists>e k. res = Inl e \<and> k < 6 \<and>
           evs = take k (prepare_events layouts pw vw agent env) @
                   [(fst (prepare_events layouts pw vw agent env ! k), Raised e)]) \<or>
        (agent_obs_dim agent = env_obs_dim env \<and> agent_act_dim agent = env_act_dim env \<and>
         (\<exists>e rs. res = Inl e \<and> length rs < n \<and>
            evs = prepare_events layouts pw vw agent env @ run_events agent env g sg gp rs @
                    [(EvaluatePolicy agent env g (sg (length rs)) (gp (length rs)), Raised e)])) \<or>
        (agent_obs_dim agent = env_obs_dim env \<and> agent_act_dim agent = env_act_dim env \<and>
         (\<exists>rs. res = Inr () \<and> length rs = n \<and>
            evs = prepare_events layouts pw vw agent env @ run_events agent env g sg gp rs)))"

definition same_results :: "'w nstate \<Rightarrow> 'w nstate \<Rightarrow> bool" where
  "same_results s s' \<longleftrightarrow>
     results_greedy_cramped_room s' = results_greedy_cramped_room s \<and>
     results_greedy s' = results_greedy s \<and>
     results_sampling s' = results_sampling s"

section \<open>A scripted world\<close>

text \<open>
  A concrete instance of the collaborators, on which the cells can be run. The world
  holds the layouts the environment constructor knows with their observation and action
  dimensions, the checkpoint files with the dimensions of the weights stored in them, the
  rewards of the coming episodes, and the GIF files written so far. Loading follows
  section 6 of the specification: a missing file and weights of other dimensions than
  the agent's both raise. An episode returns the next scripted reward and, when asked to
  save a GIF, writes its path.
\<close>

record sim =
  sim_layouts :: "(string \<times> nat \<times> nat) list"
  sim_checkpoints :: "(string \<times> nat \<times> nat) list"
  sim_rewards :: "double list"
  sim_files :: "string list"

definition sim_externs :: "sim externs" where
  "sim_externs = \<lparr>
     GeneralizedOvercooked = (\<lambda>layouts w.
       case layouts of
         [l] \<Rightarrow> (case map_of (sim_layouts w) l of
                  None \<Rightarrow> (Inl (KeyError l), w)
                | Some d \<Rightarrow> (Inr d, w))
       | _ \<Rightarrow> (Inl (ValueError ''layouts''), w)),
     PPOAgent = (\<lambda>obs_dim act_dim w. (Inr (), w)),
     forward_pass = (\<lambda>n agent width w.
       if width = agent_obs_dim agent then (Inr (), w)
       else (Inl (ValueError ''input shape''), w)),
     load_weights = (\<lambda>n agent path w.
       case map_of (sim_checkpoints w) path of
         None \<Rightarrow> (Inl (FileNotFoundError path), w)
       | Some (od, ad) \<Rightarrow>
           if od = agent_obs_dim agent \<and> ad = agent_act_dim agent then (Inr (), w)
           else (Inl (ValueError ''shape mismatch''), w)),
     evaluate_policy = (\<lambda>agent env greedy save_gif gif_path w.
       case sim_rewards w of
         [] \<Rightarrow> (Inl (RuntimeError ''no episode''), w)
       | r # rs \<Rightarrow>
           (Inr r, w\<lparr>sim_rewards := rs,
                     sim_files := (case gif_path of
                                     Some p \<Rightarrow> if save_gif then sim_files w @ [p] else sim_files w
                                   | None \<Rightarrow> sim_files w)\<rparr>)),
     path_exists = (\<lambda>p w. p \<in> set (sim_files w)) \<rparr>"

definition sim_world :: "(string \<times> nat \<times> nat) list \<Rightarrow> (string \<times> nat \<times> nat) list \<Rightarrow> double list \<Rightarrow> sim" where
  "sim_world layouts checkpoints rewards =
     \<lparr>sim_layouts = layouts, sim_checkpoints = checkpoints, sim_rewards = rewards,
      sim_files = []\<rparr>"

definition init_state :: "'w \<Rightarrow> 'w nstate" where
  "init_state w = \<lparr>world = w, next_obj = 0, trace = [], stdout = [],
     results_greedy_cramped_room = [], results_greedy = [], results_sampling = []\<rparr>"


section \<open>A run of the sweeps and their reports\<close>

text \<open>The scripted world with the three layouts of the notebook, and the states in
  which the greedy cells (sweep, then report) and the sampling cells (sweep with two runs
  per layout, then report) leave the notebook.\<close>

definition demo_world :: "double list \<Rightarrow> sim" where
  "demo_world rewards =
     sim_world [(''cramped_room'', 96, 6), (''asymmetric_advantages'', 96, 6),
                (''forced_coordination'', 96, 6)]
       [(''p.h5'', 96, 6), (''v.h5'', 96, 6)] rewards"

definition greedy_demo :: "sim nstate" where
  "greedy_demo =
     snd (greedy_report sim_externs
       (snd (greedy_sweep sim_externs ''p.h5'' ''v.h5'' test_layouts
               (init_state (demo_world (map dbl [0, 1, 2]))))))"

definition sampling_demo_sweep :: "sim nstate" where
  "sampling_demo_sweep =
     snd (sampling_sweep sim_externs ''p.h5'' ''v.h5'' 2 test_layouts
            (init_state (demo_world (map dbl [0, 1, 2, 3, 4, 5]))))"

definition sampling_demo :: "sim nstate" where
  "sampling_demo = snd (sampling_report sim_externs sampling_demo_sweep)"

section \<open>Sequencing and the collaborator calls\<close>

lemma bind_nbE:
  assumes "bind_nb m f s = (r, s')"
  obtains (raise) e where "m s = (Inl e, s')" "r = Inl e"
        | (ok) x s1 where "m s = (Inr x, s1)" "f x s1 = (r, s')"
  using assms by (auto simp: bind_nb_def split: prod.splits sum.splits)

lemma bind_py_print:
  "bind_nb (py_print ps) f s = f () (s\<lparr>stdout := stdout s @ [Line ps]\<rparr>)"
  by (simp add: bind_nb_def py_print_def)

lemma py_print_eq:
  "py_print ps s = (r, s') \<Longrightarrow>
     r = Inr () \<and> trace s' = trace s \<and> same_results s s' \<and> stdout s' = stdout s @ [Line ps]"
  by (auto simp: py_print_def same_results_def)

lemma ext_call_ok:
  "ext_call c mk f s = (Inr x, s') \<Longrightarrow>
     trace s' = trace s @ [(c, mk x)] \<and> same_results s s' \<and> stdout s' = stdout s"
  by (auto simp: ext_call_def same_results_def split: prod.splits sum.splits)

lemma ext_call_raise:
  "ext_call c mk f s = (Inl e, s') \<Longrightarrow>
     trace s' = trace s @ [(c, Raised e)] \<and> same_results s s' \<and> stdout s' = stdout s"
  by (auto simp: ext_call_def same_results_def split: prod.splits sum.splits)

lemma new_env_ok:
  "new_env ext ls s = (Inr env, s') \<Longrightarrow>
     trace s' = trace s @ [(EnvNew ls, GotEnv env)] \<and> env_layouts env = ls \<and>
     same_results s s' \<and> stdout s' = stdout s"
  by (auto simp: new_env_def same_results_def Let_def split: prod.splits sum.splits)

lemma new_env_raise:
  "new_env ext ls s = (Inl e, s') \<Longrightarrow>
     trace s' = trace s @ [(EnvNew ls, Raised e)] \<and> same_results s s' \<and> stdout s' = stdout s"
  by (auto simp: new_env_def same_results_def Let_def split: prod.splits sum.splits)

lemma new_agent_ok:
  "new_agent ext od ad s = (Inr agent, s') \<Longrightarrow>
     trace s' = trace s @ [(AgentNew od ad, GotAgent agent)] \<and>
     agent_obs_dim agent = od \<and> agent_act_dim agent = ad \<and>
     same_results s s' \<and> stdout s' = stdout s"
  by (auto simp: new_agent_def same_results_def Let_def split: prod.splits sum.splits)

lemma new_agent_raise:
  "new_agent ext od ad s = (Inl e, s') \<Longrightarrow>
     trace s' = trace s @ [(AgentNew od ad, Raised e)] \<and> same_results s s' \<and> stdout s' = stdout s"
  by (auto simp: new_agent_def same_results_def Let_def split: prod.splits sum.splits)

lemma do_evaluate_policy_ok:
  "do_evaluate_policy ext agent env g sg p s = (Inr x, s') \<Longrightarrow>
     trace s' = trace s @ [(EvaluatePolicy agent env g sg p, Reward x)] \<and>
     same_results s s' \<and> stdout s' = stdout s"
  unfolding do_evaluate_policy_def by (auto dest!: ext_call_ok)

lemma do_evaluate_policy_raise:
  "do_evaluate_policy ext agent env g sg p s = (Inl e, s') \<Longrightarrow>
     trace s' = trace s @ [(EvaluatePolicy agent env g sg p, Raised e)] \<and>
     same_results s s' \<and> stdout s' = stdout s"
  unfolding do_evaluate_policy_def by (auto dest!: ext_call_raise)

section \<open>The preparation\<close>

lemma prepare_ok:
  assumes "prepare ext ls pw vw s = (Inr (agent, env), s')"
  shows "trace s' = trace s @ prepare_events ls pw vw agent env \<and>
         agent_obs_dim agent = env_obs_dim env \<and> agent_act_dim agent = env_act_dim env \<and>
         env_layouts env = ls \<and> same_results s s' \<and> stdout s' = stdout s"
  using assms unfolding prepare_def Let_def do_forward_def do_load_weights_def
  by (auto elim!: bind_nbE simp: return_nb_def prepare_events_def same_results_def
        dest!: new_env_ok new_agent_ok ext_call_ok)

lemma ex_less_6:
  "(\<exists>k<6. P k) \<longleftrightarrow> P 0 \<or> P 1 \<or> P 2 \<or> P 3 \<or> P 4 \<or> P (5::nat)"
proof -
  have "\<And>k::nat. k < 6 \<longleftrightarrow> k = 0 \<or> k = 1 \<or> k = 2 \<or> k = 3 \<or> k = 4 \<or> k = 5"
    by arith
  then show ?thesis by auto
qed

lemma less_6_cases:
  "k < 6 \<Longrightarrow> k = 0 \<or> k = 1 \<or> k = 2 \<or> k = 3 \<or> k = 4 \<or> k = (5::nat)"
  by arith

lemma prepare_raise:
  assumes "prepare ext ls pw vw s = (Inl e, s')"
  shows "\<exists>agent env. \<exists>k<6.
           trace s' = trace s @ take k (prepare_events ls pw vw agent env) @
                        [(fst (prepare_events ls pw vw agent env ! k), Raised e)] \<and>
           same_results s s' \<and> stdout s' = stdout s"
  using assms unfolding prepare_def Let_def do_forward_def do_load_weights_def ex_less_6
  apply (elim bind_nbE)
  apply (auto simp: return_nb_def prepare_events_def same_results_def
        dest!: new_env_ok new_agent_ok ext_call_ok new_env_raise new_agent_raise ext_call_raise)
  done

section \<open>The loops\<close>

lemma zip_upt_nth:
  "length rs \<le> n \<Longrightarrow>
   map (\<lambda>(i, x). f i x) (zip [0 ..< n] rs) = map (\<lambda>i. f i (rs ! i)) [0 ..< length rs]"
proof (rule nth_equalityI)
  assume le: "length rs \<le> n"
  then show "length (map (\<lambda>(i, x). f i x) (zip [0 ..< n] rs)) =
             length (map (\<lambda>i. f i (rs ! i)) [0 ..< length rs])"
    by simp
  fix i
  assume "i < length (map (\<lambda>(i, x). f i x) (zip [0 ..< n] rs))"
  with le have "i < length rs" "i < n" by simp_all
  then show "map (\<lambda>(i, x). f i x) (zip [0 ..< n] rs) ! i =
             map (\<lambda>i. f i (rs ! i)) [0 ..< length rs] ! i"
    by simp
qed

lemma sampling_runs_ok:
  "sampling_runs ext agent env L js rewards s = (Inr out, s') \<Longrightarrow>
     \<exists>rs. length rs = length js \<and> out = rewards @ rs \<and>
          trace s' = trace s @
            map (\<lambda>(i, x). (EvaluatePolicy agent env False (i = 0)
                   (if i = 0 then Some (sampling_gif_path L) else None), Reward x)) (zip js rs) \<and>
          same_results s s' \<and> stdout s' = stdout s"
proof (induction js arbitrary: rewards s)
  case Nil
  then show ?case by (simp add: same_results_def)
next
  case (Cons i js)
  let ?ev = "\<lambda>(i, x). (EvaluatePolicy agent env False (i = 0)
                   (if i = 0 then Some (sampling_gif_path L) else None), Reward x)"
  from Cons.prems obtain x s1 where
    run: "do_evaluate_policy ext agent env False (i = 0)
            (if i = 0 then Some (sampling_gif_path L) else None) s = (Inr x, s1)"
    and rest: "sampling_runs ext agent env L js (rewards @ [x]) s1 = (Inr out, s')"
    by (auto simp: Let_def split: prod.splits sum.splits)
  from Cons.IH [OF rest] obtain rs where rs:
    "length rs = length js" "out = (rewards @ [x]) @ rs"
    "trace s' = trace s1 @ map ?ev (zip js rs)"
    "same_results s1 s'" "stdout s' = stdout s1"
    by blast
  from do_evaluate_policy_ok [OF run] rs
  have "length (x # rs) = length (i # js) \<and> out = rewards @ (x # rs) \<and>
        trace s' = trace s @ map ?ev (zip (i # js) (x # rs)) \<and>
        same_results s s' \<and> stdout s' = stdout s"
    by (simp add: same_results_def)
  then show ?case by blast
qed

lemma sampling_runs_raise:
  "sampling_runs ext agent env L js rewards s = (Inl e, s') \<Longrightarrow>
     \<exists>rs. length rs < length js \<and>
          trace s' = trace s @
            map (\<lambda>(i, x). (EvaluatePolicy agent env False (i = 0)
                   (if i = 0 then Some (sampling_gif_path L) else None), Reward x)) (zip js rs) @
            [(EvaluatePolicy agent env False (js ! length rs = 0)
                (if js ! length rs = 0 then Some (sampling_gif_path L) else None), Raised e)] \<and>
          same_results s s' \<and> stdout s' = stdout s"
proof (induction js arbitrary: rewards s)
  case Nil
  then show ?case by simp
next
  case (Cons i js)
  let ?p = "if i = 0 then Some (sampling_gif_path L) else None"
  let ?ev = "\<lambda>(i, x). (EvaluatePolicy agent env False (i = 0)
                   (if i = 0 then Some (sampling_gif_path L) else None), Reward x)"
  let ?last = "\<lambda>j. (EvaluatePolicy agent env False (j = 0)
                (if j = 0 then Some (sampling_gif_path L) else None), Raised e)"
  show ?case
  proof (cases "do_evaluate_policy ext agent env False (i = 0) ?p s")
    case (Pair r s1)
    show ?thesis
    proof (cases r)
      case (Inl e')
      with Pair Cons.prems have "e' = e" "s1 = s'" by (simp_all add: Let_def)
      with Pair Inl do_evaluate_policy_raise [of ext agent env False "i = 0" ?p s e s']
      have "length ([]::double list) < length (i # js) \<and>
            trace s' = trace s @ map ?ev (zip (i # js) []) @
                       [?last ((i # js) ! length ([]::double list))] \<and>
            same_results s s' \<and> stdout s' = stdout s"
        by simp
      then show ?thesis by blast
    next
      case (Inr x)
      with Pair Cons.prems
      have rest: "sampling_runs ext agent env L js (rewards @ [x]) s1 = (Inl e, s')"
        by (simp add: Let_def)
      from Cons.IH [OF rest] obtain rs where rs:
        "length rs < length js"
        "trace s' = trace s1 @ map ?ev (zip js rs) @ [?last (js ! length rs)]"
        "same_results s1 s'" "stdout s' = stdout s1"
        by blast
      from Pair Inr have run: "do_evaluate_policy ext agent env False (i = 0) ?p s = (Inr x, s1)"
        by simp
      from do_evaluate_policy_ok [OF run] rs
      have "length (x # rs) < length (i # js) \<and>
            trace s' = trace s @ map ?ev (zip (i # js) (x # rs)) @
                       [?last ((i # js) ! length (x # rs))] \<and>
            same_results s s' \<and> stdout s' = stdout s"
        by (simp add: same_results_def)
      then show ?thesis by blast
    qed
  qed
qed

lemma for_each_ok_names:
  assumes body: "\<And>x s1 s2. body x s1 = (Inr (), s2) \<Longrightarrow> map fst (res s2) = map fst (res s1) @ [x]"
  shows "for_each xs body s = (Inr (), s') \<Longrightarrow> map fst (res s') = map fst (res s) @ xs"
proof (induction xs arbitrary: s)
  case Nil
  then show ?case by simp
next
  case (Cons x xs)
  from Cons.prems obtain s1 where
    one: "body x s = (Inr (), s1)" and rest: "for_each xs body s1 = (Inr (), s')"
    by (auto split: prod.splits sum.splits)
  from body [OF one] Cons.IH [OF rest] show ?case by simp
qed



section \<open>The events of the evaluation sections\<close>

lemma new_events_append: "trace s' = trace s @ evs \<Longrightarrow> new_events s s' = evs"
  by (simp add: new_events_def)

lemma sampling_layout_ok:
  assumes "sampling_layout ext pw vw n L s = (Inr (), s')"
  shows "\<exists>agent env rs. length rs = n \<and>
           agent_obs_dim agent = env_obs_dim env \<and> agent_act_dim agent = env_act_dim env \<and>
           trace s' = trace s @ prepare_events [L] pw vw agent env @
                        run_events agent env False (\<lambda>i. i = 0)
                          (\<lambda>i. if i = 0 then Some (sampling_gif_path L) else None) rs \<and>
           results_sampling s' = results_sampling s @
                        [(L, np_mean rs, np_std rs, sampling_recorded_path L)] \<and>
           results_greedy s' = results_greedy s \<and>
           results_greedy_cramped_room s' = results_greedy_cramped_room s"
proof -
  let ?ev = "\<lambda>agent env i x. (EvaluatePolicy agent env False (i = 0)
                   (if i = 0 then Some (sampling_gif_path L) else None), Reward x)"
  from assms obtain s0 agent env s1 rewards s2 where
    p0: "py_print [Lit (CHR 0x0A # ''[Sampling Eval] Layout: ''), Lit L] s = (Inr (), s0)"
    and prep: "prepare ext [L] pw vw s0 = (Inr (agent, env), s1)"
    and runs: "sampling_runs ext agent env L [0 ..< n] [] s1 = (Inr rewards, s2)"
    and fin: "py_print [Lit ''Sampling eval on '', Lit L, Lit '': mean='',
                  Fixed2 0 (np_mean rewards), Lit '' +- '', Fixed2 0 (np_std rewards)]
          (s2\<lparr>results_sampling := results_sampling s2 @
                [(L, np_mean rewards, np_std rewards, sampling_recorded_path L)]\<rparr>) = (Inr (), s')"
    unfolding sampling_layout_def by (auto elim!: bind_nbE simp: Let_def)
  from sampling_runs_ok [OF runs] obtain rs where rs:
    "length rs = n" "rewards = rs"
    "trace s2 = trace s1 @ map (\<lambda>(i, x). ?ev agent env i x) (zip [0 ..< n] rs)"
    "same_results s1 s2"
    by auto
  from rs(1) have "map (\<lambda>(i, x). ?ev agent env i x) (zip [0 ..< n] rs) =
                   run_events agent env False (\<lambda>i. i = 0)
                          (\<lambda>i. if i = 0 then Some (sampling_gif_path L) else None) rs"
    using zip_upt_nth [of rs n "?ev agent env"] by (simp add: run_events_def)
  with py_print_eq [OF p0] prepare_ok [OF prep] rs py_print_eq [OF fin]
  have "length rs = n \<and>
           agent_obs_dim agent = env_obs_dim env \<and> agent_act_dim agent = env_act_dim env \<and>
           trace s' = trace s @ prepare_events [L] pw vw agent env @
                        run_events agent env False (\<lambda>i. i = 0)
                          (\<lambda>i. if i = 0 then Some (sampling_gif_path L) else None) rs \<and>
           results_sampling s' = results_sampling s @
                        [(L, np_mean rs, np_std rs, sampling_recorded_path L)] \<and>
           results_greedy s' = results_greedy s \<and>
           results_greedy_cramped_room s' = results_greedy_cramped_room s"
    by (simp add: same_results_def)
  then show ?thesis by blast
qed

lemma sampling_layout_raise:
  assumes "sampling_layout ext pw vw n L s = (Inl e, s')"
  shows "same_results s s' \<and>
         (\<exists>evs. trace s' = trace s @ evs \<and>
            section_events (Inl e) [L] pw vw False (\<lambda>i. i = 0)
              (\<lambda>i. if i = 0 then Some (sampling_gif_path L) else None) n evs)"
proof -
  let ?ev = "\<lambda>agent env i x. (EvaluatePolicy agent env False (i = 0)
                   (if i = 0 then Some (sampling_gif_path L) else None), Reward x)"
  define s0 where
    "s0 = s\<lparr>stdout := stdout s @ [Line [Lit (CHR 0x0A # ''[Sampling Eval] Layout: ''), Lit L]]\<rparr>"
  from assms have rest: "bind_nb (prepare ext [L] pw vw) (\<lambda>(agent, env).
     bind_nb (sampling_runs ext agent env L [0 ..< n] []) (\<lambda>rewards s1.
     let mean_reward = np_mean rewards;
         std_reward = np_std rewards
     in py_print [Lit ''Sampling eval on '', Lit L, Lit '': mean='',
                  Fixed2 0 mean_reward, Lit '' +- '', Fixed2 0 std_reward]
          (s1\<lparr>results_sampling := results_sampling s1 @
                [(L, mean_reward, std_reward, sampling_recorded_path L)]\<rparr>))) s0 = (Inl e, s')"
    unfolding sampling_layout_def s0_def by (simp add: bind_py_print)
  have s0: "trace s0 = trace s" "same_results s s0" by (simp_all add: s0_def same_results_def)
  from rest show ?thesis
  proof (cases rule: bind_nbE)
    case (raise e')
    then have "prepare ext [L] pw vw s0 = (Inl e, s')" by simp
    from prepare_raise [OF this] obtain agent env k where
      "k < 6" "trace s' = trace s0 @ take k (prepare_events [L] pw vw agent env) @
                        [(fst (prepare_events [L] pw vw agent env ! k), Raised e)]"
      "same_results s0 s'"
      by blast
    with s0 have "same_results s s' \<and> k < 6 \<and>
        trace s' = trace s @ (take k (prepare_events [L] pw vw agent env) @
                        [(fst (prepare_events [L] pw vw agent env ! k), Raised e)])"
      by (simp add: same_results_def)
    then show ?thesis unfolding section_events_def by blast
  next
    case (ok x s1)
    obtain agent env where x: "x = (agent, env)" by (cases x)
    from ok x have prep: "prepare ext [L] pw vw s0 = (Inr (agent, env), s1)" by simp
    from ok(2) x have "sampling_runs ext agent env L [0 ..< n] [] s1 = (Inl e, s')"
      by (auto elim!: bind_nbE simp: Let_def dest: py_print_eq)
    from sampling_runs_raise [OF this] obtain rs where rs:
      "length rs < n"
      "trace s' = trace s1 @ map (\<lambda>(i, x). ?ev agent env i x) (zip [0 ..< n] rs) @
         [(EvaluatePolicy agent env False ([0 ..< n] ! length rs = 0)
            (if [0 ..< n] ! length rs = 0 then Some (sampling_gif_path L) else None), Raised e)]"
      "same_results s1 s'"
      by auto
    from rs(1) have "map (\<lambda>(i, x). ?ev agent env i x) (zip [0 ..< n] rs) =
                   run_events agent env False (\<lambda>i. i = 0)
                          (\<lambda>i. if i = 0 then Some (sampling_gif_path L) else None) rs"
      using zip_upt_nth [of rs n "?ev agent env"] by (simp add: run_events_def)
    with rs prepare_ok [OF prep] s0
    have "same_results s s' \<and> agent_obs_dim agent = env_obs_dim env \<and>
          agent_act_dim agent = env_act_dim env \<and> length rs < n \<and>
          trace s' = trace s @ (prepare_events [L] pw vw agent env @
                 run_events agent env False (\<lambda>i. i = 0)
                          (\<lambda>i. if i = 0 then Some (sampling_gif_path L) else None) rs @
                 [(EvaluatePolicy agent env False (length rs = 0)
                    (if length rs = 0 then Some (sampling_gif_path L) else None), Raised e)])"
      by (simp add: same_results_def)
    then show ?thesis unfolding section_events_def by blast
  qed
qed

lemma sampling_layout_events:
  assumes "sampling_layout ext pw vw n L s = (res, s')"
  shows "\<exists>evs. trace s' = trace s @ evs \<and>
            section_events res [L] pw vw False (\<lambda>i. i = 0)
              (\<lambda>i. if i = 0 then Some (sampling_gif_path L) else None) n evs"
proof (cases res)
  case (Inl e)
  with assms sampling_layout_raise [of ext pw vw n L s e s'] show ?thesis by simp
next
  case (Inr u)
  with assms have "sampling_layout ext pw vw n L s = (Inr (), s')" by simp
  moreover from Inr have "res = Inr ()" by simp
  ultimately show ?thesis
    using sampling_layout_ok [of ext pw vw n L s s'] unfolding section_events_def by blast
qed

lemma greedy_layout_ok:
  assumes "greedy_layout ext pw vw L s = (Inr (), s')"
  shows "\<exists>agent env reward.
           agent_obs_dim agent = env_obs_dim env \<and> agent_act_dim agent = env_act_dim env \<and>
           trace s' = trace s @ prepare_events [L] pw vw agent env @
                        run_events agent env True (\<lambda>i. True) (\<lambda>i. Some (greedy_gif_path L)) [reward] \<and>
           results_greedy s' = results_greedy s @ [(L, reward, greedy_gif_path L)] \<and>
           results_sampling s' = results_sampling s \<and>
           results_greedy_cramped_room s' = results_greedy_cramped_room s"
proof -
  from assms obtain s0 agent env s1 reward s2 where
    p0: "py_print [Lit (CHR 0x0A # ''[Greedy Eval] Layout: ''), Lit L] s = (Inr (), s0)"
    and prep: "prepare ext [L] pw vw s0 = (Inr (agent, env), s1)"
    and run: "do_evaluate_policy ext agent env True True (Some (greedy_gif_path L)) s1 = (Inr reward, s2)"
    and fin: "py_print [Lit ''Greedy reward on '', Lit L, Lit '': '', Fixed2 0 (Val reward)]
       (s2\<lparr>results_greedy := results_greedy s2 @ [(L, reward, greedy_gif_path L)]\<rparr>) = (Inr (), s')"
    unfolding greedy_layout_def by (auto elim!: bind_nbE simp: Let_def)
  from py_print_eq [OF p0] prepare_ok [OF prep] do_evaluate_policy_ok [OF run] py_print_eq [OF fin]
  have "agent_obs_dim agent = env_obs_dim env \<and> agent_act_dim agent = env_act_dim env \<and>
           trace s' = trace s @ prepare_events [L] pw vw agent env @
                        run_events agent env True (\<lambda>i. True) (\<lambda>i. Some (greedy_gif_path L)) [reward] \<and>
           results_greedy s' = results_greedy s @ [(L, reward, greedy_gif_path L)] \<and>
           results_sampling s' = results_sampling s \<and>
           results_greedy_cramped_room s' = results_greedy_cramped_room s"
    by (simp add: same_results_def run_events_def)
  then show ?thesis by blast
qed

lemma greedy_layout_raise:
  assumes "greedy_layout ext pw vw L s = (Inl e, s')"
  shows "same_results s s' \<and>
         (\<exists>evs. trace s' = trace s @ evs \<and>
            section_events (Inl e) [L] pw vw True (\<lambda>i. True) (\<lambda>i. Some (greedy_gif_path L)) 1 evs)"
proof -
  define s0 where
    "s0 = s\<lparr>stdout := stdout s @ [Line [Lit (CHR 0x0A # ''[Greedy Eval] Layout: ''), Lit L]]\<rparr>"
  from assms have rest: "bind_nb (prepare ext [L] pw vw) (\<lambda>(agent, env).
     let gif_path = greedy_gif_path L in
     bind_nb (do_evaluate_policy ext agent env True True (Some gif_path)) (\<lambda>reward s1.
     py_print [Lit ''Greedy reward on '', Lit L, Lit '': '', Fixed2 0 (Val reward)]
       (s1\<lparr>results_greedy := results_greedy s1 @ [(L, reward, gif_path)]\<rparr>))) s0 = (Inl e, s')"
    unfolding greedy_layout_def s0_def by (simp add: bind_py_print)
  have s0: "trace s0 = trace s" "same_results s s0" by (simp_all add: s0_def same_results_def)
  from rest show ?thesis
  proof (cases rule: bind_nbE)
    case (raise e')
    then have "prepare ext [L] pw vw s0 = (Inl e, s')" by simp
    from prepare_raise [OF this] obtain agent env k where
      "k < 6" "trace s' = trace s0 @ take k (prepare_events [L] pw vw agent env) @
                        [(fst (prepare_events [L] pw vw agent env ! k), Raised e)]"
      "same_results s0 s'"
      by blast
    with s0 have "same_results s s' \<and> k < 6 \<and>
        trace s' = trace s @ (take k (prepare_events [L] pw vw agent env) @
                        [(fst (prepare_events [L] pw vw agent env ! k), Raised e)])"
      by (simp add: same_results_def)
    then show ?thesis unfolding section_events_def by blast
  next
    case (ok x s1)
    obtain agent env where x: "x = (agent, env)" by (cases x)
    from ok x have prep: "prepare ext [L] pw vw s0 = (Inr (agent, env), s1)" by simp
    from ok(2) x
    have "do_evaluate_policy ext agent env True True (Some (greedy_gif_path L)) s1 = (Inl e, s')"
      by (auto elim!: bind_nbE simp: Let_def dest: py_print_eq)
    from do_evaluate_policy_raise [OF this] prepare_ok [OF prep] s0
    have "same_results s s' \<and> agent_obs_dim agent = env_obs_dim env \<and>
          agent_act_dim agent = env_act_dim env \<and> length ([]::double list) < 1 \<and>
          trace s' = trace s @ (prepare_events [L] pw vw agent env @
                 run_events agent env True (\<lambda>i. True) (\<lambda>i. Some (greedy_gif_path L)) [] @
                 [(EvaluatePolicy agent env True True (Some (greedy_gif_path L)), Raised e)])"
      by (simp add: same_results_def run_events_def)
    then show ?thesis unfolding section_events_def by blast
  qed
qed

lemma greedy_layout_events:
  assumes "greedy_layout ext pw vw L s = (res, s')"
  shows "\<exists>evs. trace s' = trace s @ evs \<and>
            section_events res [L] pw vw True (\<lambda>i. True) (\<lambda>i. Some (greedy_gif_path L)) 1 evs"
proof (cases res)
  case (Inl e)
  with assms greedy_layout_raise [of ext pw vw L s e s'] show ?thesis by simp
next
  case (Inr u)
  with assms have "greedy_layout ext pw vw L s = (Inr (), s')" by simp
  from greedy_layout_ok [OF this] obtain agent env reward where
    "agent_obs_dim agent = env_obs_dim env \<and> agent_act_dim agent = env_act_dim env \<and>
     length [reward] = (1::nat) \<and>
     trace s' = trace s @ (prepare_events [L] pw vw agent env @
        run_events agent env True (\<lambda>i. True) (\<lambda>i. Some (greedy_gif_path L)) [reward])"
    by auto
  moreover from Inr have "res = Inr ()" by simp
  ultimately show ?thesis unfolding section_events_def by blast
qed

lemma cramped_room_cell_events:
  assumes "cramped_room_cell ext s = (res, s')"
  shows "\<exists>evs. trace s' = trace s @ evs \<and>
            section_events res [''cramped_room''] policy_weights_cramped_room
              value_weights_cramped_room True (\<lambda>i. True)
              (\<lambda>i. Some ''demo/cramped_room/cramped_room_eval_greedy.gif'') 1 evs"
proof -
  let ?pw = policy_weights_cramped_room and ?vw = value_weights_cramped_room
  let ?gif = "''demo/cramped_room/cramped_room_eval_greedy.gif''"
  define s0 where "s0 = s\<lparr>results_greedy_cramped_room := []\<rparr>"
  have s0: "trace s0 = trace s" by (simp add: s0_def)
  from assms have rest: "bind_nb (prepare ext [''cramped_room''] ?pw ?vw) (\<lambda>(agent, env).
      bind_nb (do_evaluate_policy ext agent env True True (Some ?gif)) (\<lambda>reward s1.
      py_print [Lit ''Greedy reward on cramped_room: '', Fixed2 0 (Val reward)]
        (s1\<lparr>results_greedy_cramped_room :=
              results_greedy_cramped_room s1 @ [(''cramped_room'', reward, ?gif)]\<rparr>))) s0 = (res, s')"
    unfolding cramped_room_cell_def s0_def by (simp add: Let_def)
  from rest show ?thesis
  proof (cases rule: bind_nbE)
    case (raise e)
    from prepare_raise [OF raise(1)] obtain agent env k where
      "k < 6" "trace s' = trace s0 @ take k (prepare_events [''cramped_room''] ?pw ?vw agent env) @
                        [(fst (prepare_events [''cramped_room''] ?pw ?vw agent env ! k), Raised e)]"
      by blast
    with s0 raise(2) have "res = Inl e \<and> k < 6 \<and>
        trace s' = trace s @ (take k (prepare_events [''cramped_room''] ?pw ?vw agent env) @
                        [(fst (prepare_events [''cramped_room''] ?pw ?vw agent env ! k), Raised e)])"
      by simp
    then show ?thesis unfolding section_events_def by blast
  next
    case (ok x s1)
    obtain agent env where x: "x = (agent, env)" by (cases x)
    from ok x have prep: "prepare ext [''cramped_room''] ?pw ?vw s0 = (Inr (agent, env), s1)"
      by simp
    from ok(2) x have run: "bind_nb (do_evaluate_policy ext agent env True True (Some ?gif))
      (\<lambda>reward s1. py_print [Lit ''Greedy reward on cramped_room: '', Fixed2 0 (Val reward)]
        (s1\<lparr>results_greedy_cramped_room :=
              results_greedy_cramped_room s1 @ [(''cramped_room'', reward, ?gif)]\<rparr>)) s1 = (res, s')"
      by simp
    from run show ?thesis
    proof (cases rule: bind_nbE)
      case (raise e)
      from do_evaluate_policy_raise [OF raise(1)] prepare_ok [OF prep] s0 raise(2)
      have "agent_obs_dim agent = env_obs_dim env \<and>
          agent_act_dim agent = env_act_dim env \<and> res = Inl e \<and> length ([]::double list) < 1 \<and>
          trace s' = trace s @ (prepare_events [''cramped_room''] ?pw ?vw agent env @
                 run_events agent env True (\<lambda>i. True) (\<lambda>i. Some ?gif) [] @
                 [(EvaluatePolicy agent env True True (Some ?gif), Raised e)])"
        by (simp add: run_events_def)
      then show ?thesis unfolding section_events_def by blast
    next
      case (ok reward s2)
      from do_evaluate_policy_ok [OF ok(1)] prepare_ok [OF prep] s0 py_print_eq [OF ok(2)]
      have "agent_obs_dim agent = env_obs_dim env \<and>
          agent_act_dim agent = env_act_dim env \<and> res = Inr () \<and> length [reward] = (1::nat) \<and>
          trace s' = trace s @ (prepare_events [''cramped_room''] ?pw ?vw agent env @
                 run_events agent env True (\<lambda>i. True) (\<lambda>i. Some ?gif) [reward])"
        by (simp add: run_events_def)
      then show ?thesis unfolding section_events_def by blast
    qed
  qed
qed

lemma any_section_events:
  assumes "cramped_room_cell ext s = (res, s') \<or>
           greedy_layout ext pw vw layout s = (res, s') \<or>
           sampling_layout ext pw vw n layout s = (res, s')"
  shows "\<exists>ls pw' vw' g sg gp m. section_events res ls pw' vw' g sg gp m (new_events s s')"
  using assms
proof (elim disjE)
  assume "cramped_room_cell ext s = (res, s')"
  from cramped_room_cell_events [OF this] obtain evs where
    "trace s' = trace s @ evs"
    and sec: "section_events res [''cramped_room''] policy_weights_cramped_room
              value_weights_cramped_room True (\<lambda>i. True)
              (\<lambda>i. Some ''demo/cramped_room/cramped_room_eval_greedy.gif'') 1 evs"
    by blast
  then have "new_events s s' = evs" by (simp add: new_events_append)
  with sec show ?thesis by blast
next
  assume "greedy_layout ext pw vw layout s = (res, s')"
  from greedy_layout_events [OF this] obtain evs where
    "trace s' = trace s @ evs"
    and sec: "section_events res [layout] pw vw True (\<lambda>i. True)
                (\<lambda>i. Some (greedy_gif_path layout)) 1 evs"
    by blast
  then have "new_events s s' = evs" by (simp add: new_events_append)
  with sec show ?thesis by blast
next
  assume "sampling_layout ext pw vw n layout s = (res, s')"
  from sampling_layout_events [OF this] obtain evs where
    "trace s' = trace s @ evs"
    and sec: "section_events res [layout] pw vw False (\<lambda>i. i = 0)
              (\<lambda>i. if i = 0 then Some (sampling_gif_path layout) else None) n evs"
    by blast
  then have "new_events s s' = evs" by (simp add: new_events_append)
  with sec show ?thesis by blast
qed

lemma section_events_cases:
  assumes "section_events res ls pw vw g sg gp n evs"
  obtains
    (prepare_raises) agent env e k where
      "res = Inl e" "k < 6"
      "evs = take k (prepare_events ls pw vw agent env) @
               [(fst (prepare_events ls pw vw agent env ! k), Raised e)]"
  | (run_raises) agent env e rs where
      "agent_obs_dim agent = env_obs_dim env" "agent_act_dim agent = env_act_dim env"
      "res = Inl e" "length rs < n"
      "evs = prepare_events ls pw vw agent env @ run_events agent env g sg gp rs @
               [(EvaluatePolicy agent env g (sg (length rs)) (gp (length rs)), Raised e)]"
  | (returns) agent env rs where
      "agent_obs_dim agent = env_obs_dim env" "agent_act_dim agent = env_act_dim env"
      "res = Inr ()" "length rs = n"
      "evs = prepare_events ls pw vw agent env @ run_events agent env g sg gp rs"
  using assms unfolding section_events_def by blast

lemma section_events_raise_last:
  assumes "section_events (Inl e) ls pw vw g sg gp n evs"
  shows "\<exists>c. last evs = (c, Raised e) \<and> evs \<noteq> []"
  using assms unfolding section_events_def by auto

section \<open>What the events of a section contain\<close>

lemma episode_rewards_append:
  "episode_rewards (xs @ ys) = episode_rewards xs @ episode_rewards ys"
  by (simp add: episode_rewards_def)

lemma episode_rewards_prepare: "episode_rewards (prepare_events ls pw vw agent env) = []"
  by (simp add: episode_rewards_def prepare_events_def)

lemma episode_rewards_run: "episode_rewards (run_events agent env g sg gp rs) = rs"
proof -
  have "episode_rewards (run_events agent env g sg gp rs) = map (\<lambda>i. rs ! i) [0 ..< length rs]"
    by (simp add: episode_rewards_def run_events_def comp_def concat_map_singleton)
  then show ?thesis by (simp add: map_nth)
qed

lemma episode_calls_run:
  "episode_calls (run_events agent env g sg gp rs) =
     map (\<lambda>i. (agent, env, g, sg i, gp i)) [0 ..< length rs]"
  by (simp add: episode_calls_def run_events_def comp_def concat_map_singleton)

lemma created_run:
  "created_envs (run_events agent env g sg gp rs) = [] \<and>
   created_agents (run_events agent env g sg gp rs) = [] \<and>
   agent_new_args (run_events agent env g sg gp rs) = [] \<and>
   failed_loads (run_events agent env g sg gp rs) = []"
  by (simp add: created_envs_def created_agents_def agent_new_args_def failed_loads_def
        run_events_def comp_def)

lemma read_append:
  "episode_calls (xs @ ys) = episode_calls xs @ episode_calls ys"
  "created_envs (xs @ ys) = created_envs xs @ created_envs ys"
  "created_agents (xs @ ys) = created_agents xs @ created_agents ys"
  "agent_new_args (xs @ ys) = agent_new_args xs @ agent_new_args ys"
  "failed_loads (xs @ ys) = failed_loads xs @ failed_loads ys"
  by (simp_all add: episode_calls_def created_envs_def created_agents_def agent_new_args_def
        failed_loads_def)

lemma read_prepare:
  "episode_calls (prepare_events ls pw vw agent env) = []"
  "created_envs (prepare_events ls pw vw agent env) = [env]"
  "created_agents (prepare_events ls pw vw agent env) = [agent]"
  "agent_new_args (prepare_events ls pw vw agent env) = [env_dims env]"
  "failed_loads (prepare_events ls pw vw agent env) = []"
  by (simp_all add: episode_calls_def created_envs_def created_agents_def agent_new_args_def
        failed_loads_def prepare_events_def env_dims_def)

lemma read_episode:
  "episode_calls [(EvaluatePolicy agent env g sg p, r)] = [(agent, env, g, sg, p)]"
  "created_envs [(EvaluatePolicy agent env g sg p, Raised e)] = []"
  "created_agents [(EvaluatePolicy agent env g sg p, Raised e)] = []"
  "agent_new_args [(EvaluatePolicy agent env g sg p, r)] = []"
  "failed_loads [(EvaluatePolicy agent env g sg p, r)] = []"
  by (simp_all add: episode_calls_def created_envs_def created_agents_def agent_new_args_def
        failed_loads_def)

lemma read_prepare_raise:
  assumes "k < 6"
    and "evs = take k (prepare_events ls pw vw agent env) @
                    [(fst (prepare_events ls pw vw agent env ! k), Raised e)]"
  shows "episode_calls evs = []"
    and "length (created_envs evs) \<le> 1"
    and "length (created_agents evs) \<le> 1"
    and "agent_new_args evs = map env_dims (created_envs evs)"
    and "set (failed_loads evs) \<subseteq> {e}"
  using less_6_cases [OF assms(1)] unfolding assms(2)
  by (auto simp: episode_calls_def created_envs_def created_agents_def agent_new_args_def
        failed_loads_def prepare_events_def env_dims_def)

lemma loads_precede_runs_episodes:
  assumes "(PolicyNet, agent) \<in> set loaded" "(ValueNet, agent) \<in> set loaded"
  shows "loads_precede_runs loaded (map (\<lambda>i. (EvaluatePolicy agent env g (sg i) (gp i), r i)) js @ evs) =
         loads_precede_runs loaded evs"
  using assms by (induction js) simp_all

lemma loads_precede_runs_prepare_raise:
  assumes "k < 6"
  shows "loads_precede_runs [] (take k (prepare_events ls pw vw agent env) @
                    [(fst (prepare_events ls pw vw agent env ! k), Raised e)])"
  using less_6_cases [OF assms]
  by (auto simp: prepare_events_def)

lemma loads_precede_runs_section:
  "loads_precede_runs [] (prepare_events ls pw vw agent env @
      run_events agent env g sg gp rs @ evs) =
   loads_precede_runs [(ValueNet, agent), (PolicyNet, agent)] evs"
  by (simp add: prepare_events_def run_events_def loads_precede_runs_episodes)

lemma section_created:
  assumes "section_events res ls pw vw g sg gp n evs"
  shows "length (created_envs evs) \<le> 1 \<and> length (created_agents evs) \<le> 1 \<and>
         agent_new_args evs = map env_dims (created_envs evs) \<and>
         (res = Inr () \<longrightarrow> length (created_envs evs) = 1 \<and> length (created_agents evs) = 1)"
  using assms
proof (cases rule: section_events_cases)
  case (prepare_raises agent env e k)
  with read_prepare_raise [of k evs ls pw vw agent env e] show ?thesis by simp
next
  case (run_raises agent env e rs)
  then show ?thesis by (simp add: read_append read_prepare read_episode created_run)
next
  case (returns agent env rs)
  then show ?thesis by (simp add: read_append read_prepare created_run)
qed

lemma section_episode_calls:
  assumes "section_events res ls pw vw g sg gp n evs"
  shows "\<exists>agent env k. k \<le> n \<and> (res = Inr () \<longrightarrow> k = n) \<and>
           episode_calls evs = map (\<lambda>i. (agent, env, g, sg i, gp i)) [0 ..< k] \<and>
           (0 < k \<longrightarrow> created_agents evs = [agent] \<and> created_envs evs = [env] \<and>
                     agent_obs_dim agent = env_obs_dim env \<and>
                     agent_act_dim agent = env_act_dim env)"
  using assms
proof (cases rule: section_events_cases)
  case (prepare_raises agent env e k)
  with read_prepare_raise(1) [of k evs ls pw vw agent env e]
  have "0 \<le> n \<and> (res = Inr () \<longrightarrow> 0 = n) \<and>
        episode_calls evs = map (\<lambda>i. (agent, env, g, sg i, gp i)) [0 ..< 0] \<and>
           (0 < (0::nat) \<longrightarrow> created_agents evs = [agent] \<and> created_envs evs = [env] \<and>
                     agent_obs_dim agent = env_obs_dim env \<and>
                     agent_act_dim agent = env_act_dim env)"
    by simp
  then show ?thesis by blast
next
  case (run_raises agent env e rs)
  then have "Suc (length rs) \<le> n \<and> (res = Inr () \<longrightarrow> Suc (length rs) = n) \<and>
        episode_calls evs = map (\<lambda>i. (agent, env, g, sg i, gp i)) [0 ..< Suc (length rs)] \<and>
           (0 < Suc (length rs) \<longrightarrow> created_agents evs = [agent] \<and> created_envs evs = [env] \<and>
                     agent_obs_dim agent = env_obs_dim env \<and>
                     agent_act_dim agent = env_act_dim env)"
    by (simp add: read_append read_prepare read_episode created_run episode_calls_run)
  then show ?thesis by blast
next
  case (returns agent env rs)
  then have "length rs \<le> n \<and> (res = Inr () \<longrightarrow> length rs = n) \<and>
        episode_calls evs = map (\<lambda>i. (agent, env, g, sg i, gp i)) [0 ..< length rs] \<and>
           (0 < length rs \<longrightarrow> created_agents evs = [agent] \<and> created_envs evs = [env] \<and>
                     agent_obs_dim agent = env_obs_dim env \<and>
                     agent_act_dim agent = env_act_dim env)"
    by (simp add: read_append read_prepare created_run episode_calls_run)
  then show ?thesis by blast
qed

lemma section_loads:
  assumes "section_events res ls pw vw g sg gp n evs"
  shows "loads_precede_runs [] evs \<and>
         (\<forall>e\<in>set (failed_loads evs). res = Inl e \<and> episode_calls evs = [])"
  using assms
proof (cases rule: section_events_cases)
  case (prepare_raises agent env e k)
  with read_prepare_raise(1,5) [of k evs ls pw vw agent env e]
    loads_precede_runs_prepare_raise [of k ls pw vw agent env e]
  show ?thesis by auto
next
  case (run_raises agent env e rs)
  then show ?thesis
    by (simp add: loads_precede_runs_section read_append read_prepare read_episode created_run)
next
  case (returns agent env rs)
  with loads_precede_runs_section [of ls pw vw agent env g sg gp rs "[]"]
  show ?thesis
    by (simp add: read_append read_prepare created_run)
qed

lemma episode_pairs_created:
  assumes "episode_calls evs = map (\<lambda>i. (agent, env, g, sg i, gp i)) [0 ..< k]"
    and "0 < k \<longrightarrow> created_agents evs = [agent] \<and> created_envs evs = [env]"
  shows "set (map (\<lambda>(agent, env, rest). (agent, env)) (episode_calls evs)) \<subseteq>
           set (created_agents evs) \<times> set (created_envs evs)"
proof (cases "k = 0")
  case True
  with assms(1) show ?thesis by simp
next
  case False
  with assms show ?thesis by (auto simp: comp_def)
qed

section \<open>Greedy action selection\<close>

lemma argmax_from_first_max:
  assumes "length pre = i" "best < i" "best_p = (pre @ qs) ! best"
    and "\<forall>j<i. (pre @ qs) ! j \<le> best_p"
    and "\<forall>j<best. (pre @ qs) ! j < best_p"
  shows "argmax_from qs i best best_p < length (pre @ qs) \<and>
         (\<forall>j<length (pre @ qs). (pre @ qs) ! j \<le> (pre @ qs) ! argmax_from qs i best best_p) \<and>
         (\<forall>j<argmax_from qs i best best_p.
             (pre @ qs) ! j < (pre @ qs) ! argmax_from qs i best best_p)"
  using assms
proof (induction qs arbitrary: pre i best best_p)
  case Nil
  then show ?case by simp
next
  case (Cons q qs)
  let ?xs = "pre @ q # qs"
  have split: "?xs = (pre @ [q]) @ qs" by simp
  have q: "?xs ! i = q" using Cons.prems(1) by (simp add: nth_append)
  show ?case
  proof (cases "best_p < q")
    case True
    have a: "length (pre @ [q]) = Suc i" using Cons.prems(1) by simp
    have b: "i < Suc i" by simp
    have c: "q = ((pre @ [q]) @ qs) ! i" using q by simp
    have d: "\<forall>j<Suc i. ((pre @ [q]) @ qs) ! j \<le> q"
    proof (intro allI impI)
      fix j assume "j < Suc i"
      then consider "j < i" | "j = i" by linarith
      then show "((pre @ [q]) @ qs) ! j \<le> q"
      proof cases
        case 1
        with Cons.prems(4) have "?xs ! j \<le> best_p" by blast
        with True show ?thesis by simp
      next
        case 2
        with q show ?thesis by simp
      qed
    qed
    have e: "\<forall>j<i. ((pre @ [q]) @ qs) ! j < q"
    proof (intro allI impI)
      fix j assume "j < i"
      with Cons.prems(4) have "?xs ! j \<le> best_p" by blast
      with True show "((pre @ [q]) @ qs) ! j < q" by simp
    qed
    from Cons.IH [OF a b c d e] True show ?thesis by simp
  next
    case False
    have a: "length (pre @ [q]) = Suc i" using Cons.prems(1) by simp
    have b: "best < Suc i" using Cons.prems(2) by simp
    have c: "best_p = ((pre @ [q]) @ qs) ! best" using Cons.prems(3) by simp
    have d: "\<forall>j<Suc i. ((pre @ [q]) @ qs) ! j \<le> best_p"
    proof (intro allI impI)
      fix j assume "j < Suc i"
      then consider "j < i" | "j = i" by linarith
      then show "((pre @ [q]) @ qs) ! j \<le> best_p"
      proof cases
        case 1
        with Cons.prems(4) show ?thesis by simp
      next
        case 2
        with q False show ?thesis by simp
      qed
    qed
    have e: "\<forall>j<best. ((pre @ [q]) @ qs) ! j < best_p"
      using Cons.prems(5) by simp
    from Cons.IH [OF a b c d e] False show ?thesis by simp
  qed
qed

lemma greedy_action_first_max:
  assumes "probs \<noteq> []"
  shows "\<exists>a. greedy_action probs = Some a \<and> a < length probs \<and>
             (\<forall>j<length probs. probs ! j \<le> probs ! a) \<and>
             (\<forall>j<a. probs ! j < probs ! a)"
proof -
  from assms obtain q qs where p: "probs = q # qs" by (cases probs) auto
  have "argmax_from qs 1 0 q < length ([q] @ qs) \<and>
         (\<forall>j<length ([q] @ qs). ([q] @ qs) ! j \<le> ([q] @ qs) ! argmax_from qs 1 0 q) \<and>
         (\<forall>j<argmax_from qs 1 0 q. ([q] @ qs) ! j < ([q] @ qs) ! argmax_from qs 1 0 q)"
    by (rule argmax_from_first_max) simp_all
  with p show ?thesis by (simp add: greedy_action_def)
qed

section \<open>Floating-point arithmetic\<close>

subsection \<open>Rounding\<close>

lemma zero_in_doubles: "0 \<in> doubles"
proof -
  have "(0::real) = of_int 0 * 2 powi 0 \<and> \<bar>0::int\<bar> < 2 ^ 53 \<and> - 1074 \<le> (0::int) \<and> (0::int) \<le> 971"
    by simp
  then show ?thesis unfolding doubles_def by blast
qed
lemma round_half_even_of_int: "round_half_even (of_int n) = n"
  by (simp add: round_half_even_def)

lemma round_half_even_near: "\<bar>y - of_int (round_half_even y)\<bar> \<le> 1 / 2"
  unfolding round_half_even_def Let_def by (auto simp: abs_if) linarith+

lemma round_half_even_unique:
  assumes "\<bar>y - of_int m\<bar> < 1 / 2"
  shows "round_half_even y = m"
proof -
  from assms round_half_even_near [of y]
  have "\<bar>real_of_int (round_half_even y) - real_of_int m\<bar> < 1" by linarith
  then have "\<bar>real_of_int (round_half_even y - m)\<bar> < 1" by simp
  then have "\<bar>round_half_even y - m\<bar> < 1" by linarith
  then show ?thesis by simp
qed

lemma two_powi_pos: "0 < (2::real) powi k"
  by simp

lemma expo_bounds:
  assumes "x \<noteq> 0"
  shows "2 powi \<lfloor>log 2 \<bar>x\<bar>\<rfloor> \<le> \<bar>x\<bar>" and "\<bar>x\<bar> < 2 powi (\<lfloor>log 2 \<bar>x\<bar>\<rfloor> + 1)"
proof -
  from assms have pos: "0 < \<bar>x\<bar>" by simp
  have "2 powr real_of_int \<lfloor>log 2 \<bar>x\<bar>\<rfloor> \<le> \<bar>x\<bar> \<and> \<bar>x\<bar> < 2 powr (real_of_int \<lfloor>log 2 \<bar>x\<bar>\<rfloor> + 1)"
    using floor_log_eq_powr_iff [OF pos, of 2 "\<lfloor>log 2 \<bar>x\<bar>\<rfloor>"] by simp
  moreover have "2 powr (real_of_int \<lfloor>log 2 \<bar>x\<bar>\<rfloor> + 1) = 2 powr real_of_int (\<lfloor>log 2 \<bar>x\<bar>\<rfloor> + 1)"
    by simp
  ultimately show "2 powi \<lfloor>log 2 \<bar>x\<bar>\<rfloor> \<le> \<bar>x\<bar>" and "\<bar>x\<bar> < 2 powi (\<lfloor>log 2 \<bar>x\<bar>\<rfloor> + 1)"
    by (simp_all only: powr_real_of_int' [of 2, simplified])
qed

lemma expo_eq:
  assumes "2 powi k \<le> \<bar>x\<bar>" "\<bar>x\<bar> < 2 powi (k + 1)"
  shows "\<lfloor>log 2 \<bar>x\<bar>\<rfloor> = k"
proof -
  from assms(1) have pos: "0 < \<bar>x\<bar>" using two_powi_pos [of k] by linarith
  have a: "2 powr real_of_int k = 2 powi k" by (rule powr_real_of_int') simp_all
  have b: "2 powr (real_of_int k + 1) = 2 powi (k + 1)"
    using powr_real_of_int' [of 2 "k + 1"] by simp
  from assms a b show ?thesis
    using floor_log_eq_powr_iff [OF pos, of 2 k] by simp
qed


lemma powi_add: "(2::real) powi (a + b) = 2 powi a * 2 powi b"
  by (rule power_int_add) simp

lemma powi_le: "a \<le> b \<Longrightarrow> (2::real) powi a \<le> 2 powi b"
  by (rule power_int_increasing) simp_all

lemma powi_less: "a < b \<Longrightarrow> (2::real) powi a < 2 powi b"
  by (rule power_int_strict_increasing) simp_all

lemma powi_less_cancel: "(2::real) powi a < 2 powi b \<Longrightarrow> a < b"
  using powi_le [of b a] by (cases "a < b") auto

lemma rnd_eq:
  assumes "2 powi k \<le> \<bar>x\<bar>" "\<bar>x\<bar> < 2 powi (k + 1)"
    and "q = max (k - 52) (- 1074)"
    and "\<bar>x / 2 powi q - of_int m\<bar> < 1 / 2"
  shows "rnd x = of_int m * 2 powi q"
proof -
  from assms(1) two_powi_pos [of k] have "0 < \<bar>x\<bar>" by linarith
  then have nz: "x \<noteq> 0" by simp
  from expo_eq [OF assms(1,2)] assms(3) have "max (\<lfloor>log 2 \<bar>x\<bar>\<rfloor> - 52) (- 1074) = q" by simp
  with nz round_half_even_unique [OF assms(4)] show ?thesis
    by (simp add: rnd_def Let_def)
qed

lemma rnd_double:
  assumes "x \<in> doubles"
  shows "rnd x = x"
proof (cases "x = 0")
  case True
  then show ?thesis by (simp add: rnd_def)
next
  case False
  from assms obtain m e where x: "x = of_int m * 2 powi e"
    and m: "\<bar>m\<bar> < 2 ^ 53" and e: "- 1074 \<le> e" "e \<le> 971"
    unfolding doubles_def by blast
  define k where "k = \<lfloor>log 2 \<bar>x\<bar>\<rfloor>"
  define q where "q = max (k - 52) (- 1074)"
  from m have "\<bar>real_of_int m\<bar> < 2 ^ 53"
    by (metis of_int_abs of_int_less_numeral_power_cancel_iff)
  then have "\<bar>x\<bar> < 2 ^ 53 * 2 powi e"
    unfolding x by (simp add: abs_mult)
  also have "\<dots> = 2 powi (53 + e)" by (simp add: powi_add)
  finally have "\<bar>x\<bar> < 2 powi (53 + e)" .
  with expo_bounds(1) [OF False] have "2 powi k < (2::real) powi (53 + e)"
    unfolding k_def by linarith
  then have "k < 53 + e" by (rule powi_less_cancel)
  with e have qe: "q \<le> e" unfolding q_def by simp
  have "2 powi e = (2::real) powi (e - q) * 2 powi q"
    using powi_add [of "e - q" q] by simp
  also have "(2::real) powi (e - q) = 2 ^ nat (e - q)"
    using qe by (simp add: power_int_def)
  finally have pe: "2 powi e = (2::real) ^ nat (e - q) * 2 powi q" .
  have "x / 2 powi q = of_int (m * 2 ^ nat (e - q))"
    unfolding x pe by simp
  then have "round_half_even (x / 2 powi q) = m * 2 ^ nat (e - q)"
    by (simp only: round_half_even_of_int)
  with False have "rnd x = of_int (m * 2 ^ nat (e - q)) * 2 powi q"
    by (simp add: rnd_def Let_def k_def q_def)
  also have "\<dots> = x" unfolding x pe by simp
  finally show ?thesis .
qed


lemma round_half_even_le:
  assumes "\<bar>y\<bar> < of_int B"
  shows "\<bar>round_half_even y\<bar> \<le> B"
proof -
  from assms round_half_even_near [of y]
  have "\<bar>real_of_int (round_half_even y)\<bar> < real_of_int B + 1 / 2" by linarith
  then have "real_of_int \<bar>round_half_even y\<bar> < real_of_int (B + 1)" by simp
  then have "\<bar>round_half_even y\<bar> < B + 1" by (simp only: of_int_less_iff)
  then show ?thesis by simp
qed

lemma round_half_even_ge:
  assumes "of_int B \<le> \<bar>y\<bar>"
  shows "B \<le> \<bar>round_half_even y\<bar>"
proof -
  from assms round_half_even_near [of y]
  have "real_of_int B - 1 / 2 \<le> \<bar>real_of_int (round_half_even y)\<bar>" by linarith
  then have "real_of_int (B - 1) < real_of_int \<bar>round_half_even y\<bar>" by simp
  then have "B - 1 < \<bar>round_half_even y\<bar>" by (simp only: of_int_less_iff)
  then show ?thesis by simp
qed

lemma rnd_in_doubles:
  assumes "\<bar>rnd x\<bar> < 2 ^ 1024"
  shows "rnd x \<in> doubles"
proof (cases "x = 0")
  case True
  then show ?thesis by (simp add: rnd_def zero_in_doubles)
next
  case False
  define k where "k = \<lfloor>log 2 \<bar>x\<bar>\<rfloor>"
  define q where "q = max (k - 52) (- 1074)"
  define n where "n = round_half_even (x / 2 powi q)"
  from False have r: "rnd x = of_int n * 2 powi q"
    by (simp add: rnd_def Let_def k_def q_def n_def)
  have q_low: "- 1074 \<le> q" "k - 52 \<le> q" by (simp_all add: q_def)
  have y: "\<bar>x / 2 powi q\<bar> = \<bar>x\<bar> / 2 powi q" by simp
  have "\<bar>x\<bar> < 2 powi (k + 1)" unfolding k_def by (rule expo_bounds(2) [OF False])
  also have "(2::real) powi (k + 1) = 2 powi 53 * 2 powi (k - 52)"
  proof -
    have "k + 1 = 53 + (k - 52)" by simp
    then show ?thesis by (simp only: powi_add)
  qed
  also have "\<dots> \<le> 2 powi 53 * 2 powi q"
    using powi_le [OF q_low(2)] by simp
  finally have "\<bar>x\<bar> / 2 powi q < 2 ^ 53"
    by (simp add: field_simps)
  then have "\<bar>x / 2 powi q\<bar> < real_of_int (2 ^ 53)" using y by simp
  then have n_le: "\<bar>n\<bar> \<le> 2 ^ 53" unfolding n_def by (rule round_half_even_le)
  have q_up: "q \<le> 971"
  proof (rule ccontr)
    assume "\<not> q \<le> 971"
    then have q972: "972 \<le> q" by simp
    then have qk: "q = k - 52" unfolding q_def by simp
    have "2 powi 52 * 2 powi q = (2::real) powi k"
      using powi_add [of 52 q] qk by simp
    also have "\<dots> \<le> \<bar>x\<bar>" unfolding k_def by (rule expo_bounds(1) [OF False])
    finally have "real_of_int (2 ^ 52) \<le> \<bar>x / 2 powi q\<bar>"
      using y by (simp add: field_simps)
    then have "2 ^ 52 \<le> \<bar>n\<bar>" unfolding n_def by (rule round_half_even_ge)
    then have "(2::real) ^ 52 \<le> \<bar>real_of_int n\<bar>"
      by (metis of_int_abs of_int_le_iff of_int_numeral of_int_power)
    moreover have "(2::real) powi 972 \<le> 2 powi q" using q972 by (rule powi_le)
    ultimately have "(2::real) ^ 52 * 2 powi 972 \<le> \<bar>real_of_int n\<bar> * 2 powi q"
      by (intro mult_mono) simp_all
    moreover have "(2::real) ^ 52 * 2 powi 972 = 2 ^ 1024"
      using powi_add [of 52 972] by simp
    ultimately have "(2::real) ^ 1024 \<le> \<bar>rnd x\<bar>"
      unfolding r by (simp add: abs_mult)
    with assms show False by simp
  qed
  show ?thesis
  proof (cases "\<bar>n\<bar> < 2 ^ 53")
    case True
    with r q_low(1) q_up show ?thesis unfolding doubles_def by blast
  next
    case False
    with n_le have n53: "\<bar>n\<bar> = 2 ^ 53" by simp
    have q970: "q \<le> 970"
    proof (rule ccontr)
      assume "\<not> q \<le> 970"
      with q_up have "q = 971" by simp
      with n53 have "\<bar>rnd x\<bar> = 2 ^ 53 * 2 powi 971"
        unfolding r by (simp add: abs_mult flip: of_int_abs)
      also have "\<dots> = (2::real) ^ 1024" using powi_add [of 53 971] by simp
      finally show False using assms by simp
    qed
    from n53 have "n = 2 ^ 53 \<or> n = - (2 ^ 53)" by (auto simp: abs_if split: if_splits)
    then have half: "real_of_int n = real_of_int (n div 2) * 2" "\<bar>n div 2\<bar> < 2 ^ 53"
      by auto
    have "rnd x = of_int (n div 2) * 2 powi (q + 1)"
      unfolding r using half(1) powi_add [of q 1] by simp
    with half(2) q_low(1) q970
    have "rnd x = of_int (n div 2) * 2 powi (q + 1) \<and> \<bar>n div 2\<bar> < 2 ^ 53 \<and>
          - 1074 \<le> q + 1 \<and> q + 1 \<le> 971"
      by simp
    then show ?thesis unfolding doubles_def by blast
  qed
qed

lemma double_less_max: "x \<in> doubles \<Longrightarrow> \<bar>x\<bar> < 2 ^ 1024"
proof -
  assume "x \<in> doubles"
  then obtain m e where x: "x = of_int m * 2 powi e"
    and m: "\<bar>m\<bar> < 2 ^ 53" and e: "e \<le> 971"
    unfolding doubles_def by blast
  from m have "\<bar>real_of_int m\<bar> < 2 ^ 53"
    by (metis of_int_abs of_int_less_numeral_power_cancel_iff)
  moreover have "(2::real) powi e \<le> 2 powi 971" using e by (rule powi_le)
  ultimately have "\<bar>real_of_int m\<bar> * 2 powi e < 2 ^ 53 * 2 powi 971"
    by (rule mult_less_le_imp_less) (simp_all only: abs_ge_zero two_powi_pos)
  moreover have "(2::real) ^ 53 * 2 powi 971 = 2 ^ 1024" using powi_add [of 53 971] by simp
  ultimately show ?thesis unfolding x by (simp add: abs_mult)
qed


subsection \<open>The operations on doubles\<close>

lemma valof_zero: "valof 0 = 0"
  by (simp add: zero_double_def Abs_double_inverse zero_in_doubles)


lemma dbl_valof: "dbl (valof d) = d"
  using valof [of d] by (simp add: dbl_def rnd_double valof_inverse)

lemma fl_valof: "fl (valof d) = Val d"
  using valof [of d] double_less_max [of "valof d"]
  by (simp add: fl_def rnd_double dbl_valof)

lemma fl_zero: "fl 0 = Val 0"
  using fl_valof [of 0] by (simp add: valof_zero)

lemma rnd_one: "rnd 1 = 1"
proof -
  have "(1::real) = of_int 1 * 2 powi 0 \<and> \<bar>1::int\<bar> < 2 ^ 53 \<and> - 1074 \<le> (0::int) \<and> (0::int) \<le> 971"
    by simp
  then have "(1::real) \<in> doubles" unfolding doubles_def by blast
  then show ?thesis by (rule rnd_double)
qed

lemma np_mean_single: "np_mean [r] = Val r"
  by (simp add: np_mean_def np_sum_def pairwise_sum.simps [of "[Val r]"] valof_zero fl_valof
        rnd_one)

lemma fl_double:
  assumes "x \<in> doubles"
  shows "fl x = Val (Abs_double x)" and "valof (Abs_double x) = x"
  using assms double_less_max [OF assms]
  by (simp_all add: fl_def rnd_double dbl_def Abs_double_inverse)

lemma minus_in_doubles: "x \<in> doubles \<Longrightarrow> - x \<in> doubles"
proof -
  assume "x \<in> doubles"
  then obtain m e where "x = of_int m * 2 powi e" "\<bar>m\<bar> < 2 ^ 53" "- 1074 \<le> e" "e \<le> 971"
    unfolding doubles_def by blast
  then have "- x = of_int (- m) * 2 powi e \<and> \<bar>- m\<bar> < 2 ^ 53 \<and> - 1074 \<le> e \<and> e \<le> 971"
    by simp
  then show ?thesis unfolding doubles_def by blast
qed

lemma fsub_self: "fsub (Val r) (Val r) = Val 0"
proof -
  have "- valof r \<in> doubles" using valof [of r] by (rule minus_in_doubles)
  from fl_double [OF this] show ?thesis
    by (simp add: fsub_def fl_zero)
qed

lemma np_std_single: "np_std [r] = Val 0"
  by (simp add: np_std_def np_sum_def fsub_self pairwise_sum.simps [of "[Val r]"]
        pairwise_sum.simps [of "[Val 0]"] valof_zero fl_valof fl_zero rnd_one)

lemma np_mean_empty: "np_mean [] = NaN"
  by (simp add: np_mean_def np_sum_def pairwise_sum.simps [of "[]"] valof_zero fl_zero)

lemma in_doublesI:
  "x = of_int m * 2 powi e \<Longrightarrow> \<bar>m\<bar> < 2 ^ 53 \<Longrightarrow> - 1074 \<le> e \<Longrightarrow> e \<le> 971 \<Longrightarrow> x \<in> doubles"
  unfolding doubles_def by blast

lemma valof_dbl_double: "c \<in> doubles \<Longrightarrow> valof (dbl c) = c"
  by (simp add: dbl_def rnd_double Abs_double_inverse)

lemma fl_eqI:
  assumes "rnd x = c" and "\<bar>c\<bar> < 2 ^ 1024"
  shows "fl x = Val (dbl c)" and "c \<in> doubles"
proof -
  from assms have "\<bar>rnd x\<bar> < 2 ^ 1024" by simp
  then have "rnd x \<in> doubles" by (rule rnd_in_doubles)
  with assms(1) show c: "c \<in> doubles" by simp
  then have "rnd c = c" by (rule rnd_double)
  with assms show "fl x = Val (dbl c)" by (simp add: fl_def dbl_def)
qed

lemma rnd_eqI:
  assumes "2 powi k \<le> \<bar>x\<bar>" "\<bar>x\<bar> < 2 powi (k + 1)" "- 1022 \<le> k"
    and "c = of_int m * 2 powi (k - 52)"
    and "\<bar>x - c\<bar> < 2 powi (k - 53)"
  shows "rnd x = c"
proof -
  from assms(3) have q: "k - 52 = max (k - 52) (- 1074)" by simp
  have "x / 2 powi (k - 52) - of_int m = (x - c) / 2 powi (k - 52)"
    unfolding assms(4) by (simp add: field_simps)
  then have "\<bar>x / 2 powi (k - 52) - of_int m\<bar> = \<bar>x - c\<bar> / 2 powi (k - 52)"
    by (simp add: abs_divide)
  also have "\<dots> < 2 powi (k - 53) / 2 powi (k - 52)"
    using assms(5) by (simp add: divide_strict_right_mono)
  also have "(2::real) powi (k - 53) / 2 powi (k - 52) = 1 / 2"
    using powi_add [of "k - 53" 1] by (simp add: field_simps)
  finally have "\<bar>x / 2 powi (k - 52) - of_int m\<bar> < 1 / 2" .
  from rnd_eq [OF assms(1,2) q this] assms(4) show ?thesis by simp
qed

lemma fadd_eqI:
  assumes "a \<in> doubles" "b \<in> doubles" "rnd (a + b) = c" "\<bar>c\<bar> < 2 ^ 1024"
  shows "fadd (Val (dbl a)) (Val (dbl b)) = Val (dbl c) \<and> c \<in> doubles"
  using fl_eqI [OF assms(3,4)] assms(1,2) by (simp add: valof_dbl_double)



lemma fdiv_count_eqI:
  assumes "a \<in> doubles" "rnd (a / d) = c" "0 < n" "real n = d" "rnd d = d" "\<bar>c\<bar> < 2 ^ 1024"
  shows "fdiv_count (Val (dbl a)) n = Val (dbl c) \<and> c \<in> doubles"
  using fl_eqI [OF assms(2,6)] assms(1,3,4,5) by (auto simp: valof_dbl_double)



lemma zero_double_dbl: "(0::double) = dbl 0"
  by (simp add: zero_double_def dbl_def rnd_def)


subsection \<open>The statistics of ten runs with the rewards 2 (nine times) and 20\<close>











subsection \<open>Rounding and overflow in \<open>np.mean\<close>\<close>

text \<open>The mean of the floats \<open>0.1\<close> and \<open>0.2\<close> is the double
  \<open>0.15000000000000002\<close>, the neighbour above the double \<open>0.15\<close>: the sum of the two lies
  half way between two doubles and is rounded to the even one. The mean of two floats
  \<open>2\<^sup>1\<^sup>0\<^sup>2\<^sup>3\<close> is \<open>inf\<close>, their sum being beyond the largest double.\<close>

lemma rnd_eq_round:
  assumes "2 powi k \<le> \<bar>x\<bar>" "\<bar>x\<bar> < 2 powi (k + 1)" "- 1022 \<le> k"
    and "round_half_even (x / 2 powi (k - 52)) = m"
    and "c = of_int m * 2 powi (k - 52)"
  shows "rnd x = c"
proof -
  from assms(1) two_powi_pos [of k] have "0 < \<bar>x\<bar>" by linarith
  then have nz: "x \<noteq> 0" by simp
  from expo_eq [OF assms(1,2)] assms(3)
  have "max (\<lfloor>log 2 \<bar>x\<bar>\<rfloor> - 52) (- 1074) = k - 52" by simp
  with nz assms(4,5) show ?thesis
    by (simp add: rnd_def Let_def)
qed

lemma rnd_2: "rnd 2 = 2"
  by (rule rnd_double, rule in_doublesI [where m = 2 and e = 0]) simp_all

lemma np_mean_tenths:
  "np_mean [dbl 0.1, dbl 0.2] = Val (dbl (1351079888211149 / 9007199254740992)) \<and>
   valof (dbl (1351079888211149 / 9007199254740992)) = 1351079888211149 / 9007199254740992 \<and>
   valof (dbl 0.15) = 5404319552844595 / 36028797018963968"
proof -
  have d0: "(0::real) \<in> doubles" by (rule zero_in_doubles)
  have r1: "rnd 0.1 = 3602879701896397 / 36028797018963968"
    by (rule rnd_eqI [where k = "- 4" and m = 7205759403792794]) simp_all
  have r2: "rnd 0.2 = 3602879701896397 / 18014398509481984"
    by (rule rnd_eqI [where k = "- 3" and m = 7205759403792794]) simp_all
  have r3: "rnd 0.15 = 5404319552844595 / 36028797018963968"
    by (rule rnd_eqI [where k = "- 3" and m = 5404319552844595]) simp_all
  have a1: "fl 0.1 = Val (dbl (3602879701896397 / 36028797018963968)) \<and>
      3602879701896397 / 36028797018963968 \<in> doubles"
    using fl_eqI [OF r1] by simp
  have a2: "fl 0.2 = Val (dbl (3602879701896397 / 18014398509481984)) \<and>
      3602879701896397 / 18014398509481984 \<in> doubles"
    using fl_eqI [OF r2] by simp
  have a3: "5404319552844595 / 36028797018963968 \<in> doubles"
    using fl_eqI(2) [OF r3] by simp
  have e1: "dbl 0.1 = dbl (3602879701896397 / 36028797018963968)"
    unfolding dbl_def r1 rnd_double [OF a1 [THEN conjunct2]] ..
  have e2: "dbl 0.2 = dbl (3602879701896397 / 18014398509481984)"
    unfolding dbl_def r2 rnd_double [OF a2 [THEN conjunct2]] ..
  have e3: "dbl 0.15 = dbl (5404319552844595 / 36028797018963968)"
    unfolding dbl_def r3 rnd_double [OF a3] ..
  have r4: "rnd (0 + 3602879701896397 / 36028797018963968) = 3602879701896397 / 36028797018963968"
    using rnd_double [OF a1 [THEN conjunct2]] by simp
  have s4: "fadd (Val (dbl 0)) (Val (dbl (3602879701896397 / 36028797018963968))) =
      Val (dbl (3602879701896397 / 36028797018963968)) \<and>
      3602879701896397 / 36028797018963968 \<in> doubles"
    by (rule fadd_eqI [OF d0 a1 [THEN conjunct2] r4]) simp_all
  have r5: "rnd (3602879701896397 / 36028797018963968 + 3602879701896397 / 18014398509481984) =
      1351079888211149 / 4503599627370496"
    by (rule rnd_eq_round [where k = "- 2" and m = 5404319552844596])
      (simp_all add: round_half_even_def)
  have s5: "fadd (Val (dbl (3602879701896397 / 36028797018963968)))
        (Val (dbl (3602879701896397 / 18014398509481984))) =
      Val (dbl (1351079888211149 / 4503599627370496)) \<and>
      1351079888211149 / 4503599627370496 \<in> doubles"
    by (rule fadd_eqI [OF a1 [THEN conjunct2] a2 [THEN conjunct2] r5]) simp_all
  have r6: "rnd (0 + 1351079888211149 / 4503599627370496) = 1351079888211149 / 4503599627370496"
    using rnd_double [OF s5 [THEN conjunct2]] by simp
  have s6: "fadd (Val (dbl 0)) (Val (dbl (1351079888211149 / 4503599627370496))) =
      Val (dbl (1351079888211149 / 4503599627370496)) \<and>
      1351079888211149 / 4503599627370496 \<in> doubles"
    by (rule fadd_eqI [OF d0 s5 [THEN conjunct2] r6]) simp_all
  have r7: "rnd ((1351079888211149 / 4503599627370496) / 2) = 1351079888211149 / 9007199254740992"
    by (rule rnd_eqI [where k = "- 3" and m = 5404319552844596]) simp_all
  have s7: "fdiv_count (Val (dbl (1351079888211149 / 4503599627370496))) 2 =
      Val (dbl (1351079888211149 / 9007199254740992)) \<and>
      1351079888211149 / 9007199254740992 \<in> doubles"
    by (rule fdiv_count_eqI [OF s5 [THEN conjunct2] r7]) (simp_all add: rnd_2)
  have sum: "np_sum (map Val [dbl 0.1, dbl 0.2]) = Val (dbl (1351079888211149 / 4503599627370496))"
    unfolding e1 e2
    by (simp add: np_sum_def zero_double_dbl s4 [THEN conjunct1] s5 [THEN conjunct1]
          s6 [THEN conjunct1] pairwise_sum.simps [of "[a0, a1]" for a0 a1 :: np_float]
          del: fadd.simps)
  have len: "length (map Val [dbl 0.1, dbl 0.2]) = 2" by simp
  have mean: "np_mean [dbl 0.1, dbl 0.2] = Val (dbl (1351079888211149 / 9007199254740992))"
    unfolding np_mean_def Let_def len sum by (rule s7 [THEN conjunct1])
  have v1: "valof (dbl (1351079888211149 / 9007199254740992)) = 1351079888211149 / 9007199254740992"
    by (rule valof_dbl_double) (rule s7 [THEN conjunct2])
  have v2: "valof (dbl 0.15) = 5404319552844595 / 36028797018963968"
    unfolding e3 by (rule valof_dbl_double) (rule a3)
  from mean v1 v2 show ?thesis by blast
qed

lemma fadd_zero_left: "fadd (Val 0) (Val d) = Val d"
  by (simp add: valof_zero fl_valof)

lemma np_mean_overflow: "np_mean [dbl (2 ^ 1023), dbl (2 ^ 1023)] = PosInf"
proof -
  have d: "(2::real) ^ 1023 \<in> doubles"
    by (rule in_doublesI [where m = "2 ^ 52" and e = 971]) simp_all
  have v: "valof (dbl (2 ^ 1023)) = 2 ^ 1023"
    using d by (rule valof_dbl_double)
  have r: "rnd (2 ^ 1023 + 2 ^ 1023) = 2 ^ 1024"
    by (rule rnd_eqI [where k = 1024 and m = "2 ^ 52"]) simp_all
  have "(0::real) < 2 ^ 1023 + 2 ^ 1023" by simp
  then have "fl (2 ^ 1023 + 2 ^ 1023) = PosInf"
    unfolding fl_def r by (simp only: abs_of_pos zero_less_power zero_less_numeral order_refl if_True)
  then have s: "fadd (Val (dbl (2 ^ 1023))) (Val (dbl (2 ^ 1023))) = PosInf"
    by (simp only: fadd.simps v)
  define big where "big = dbl (2 ^ 1023)"
  from s have "fadd (Val big) (Val big) = PosInf"
    unfolding big_def .
  then have "np_mean [big, big] = PosInf"
    by (simp add: np_mean_def np_sum_def fadd_zero_left
          pairwise_sum.simps [of "[a0, a1]" for a0 a1 :: np_float] del: fadd.simps(1))
  then show ?thesis unfolding big_def .
qed

section \<open>Running the cells on the scripted world\<close>

lemmas nb_defs = sampling_layout_def greedy_layout_def cramped_room_cell_def prepare_def
  bind_nb_def return_nb_def new_env_def new_agent_def do_forward_def do_load_weights_def
  do_evaluate_policy_def ext_call_def py_print_def show_gif_def sim_externs_def sim_world_def
  init_state_def Let_def sampling_sweep_def greedy_sweep_def new_events_def

lemma list3_eq:
  assumes "length xs = 3" "xs ! 0 = a" "xs ! 1 = b" "xs ! 2 = c"
  shows "xs = [a, b, c]"
proof -
  from assms(1) obtain x y z where "xs = [x, y, z]"
    by (auto simp: numeral_3_eq_3 length_Suc_conv)
  with assms(2-4) show ?thesis by simp
qed

lemmas demo_defs = nb_defs demo_world_def test_layouts_def greedy_gif_path_def
  sampling_gif_path_def sampling_recorded_path_def upt_rec greedy_report_def
  sampling_report_def

lemma greedy_demo_listing:
  "drop 13 (stdout greedy_demo) =
     [Line [Lit ''Layout: cramped_room''],
      Image ''demo/generalization/cramped_room_eval_greedy.gif'',
      Line [Lit ''Layout: cramped_room''],
      Image ''demo/generalization/asymmetric_advantages_eval_greedy.gif'',
      Line [Lit ''Layout: cramped_room''],
      Image ''demo/generalization/forced_coordination_eval_greedy.gif'']"
  unfolding greedy_demo_def by (simp add: demo_defs)

lemma sampling_demo_files:
  "sim_files (world sampling_demo_sweep) =
     [''demo/generalization/cramped_room_eval_sampling.gif'',
      ''demo/generalization/asymmetric_advantages_eval_sampling.gif'',
      ''demo/generalization/forced_coordination_eval_sampling.gif'']"
  unfolding sampling_demo_sweep_def by (simp add: demo_defs)

lemma sampling_demo_recorded:
  "map (\<lambda>(layout, mean, std, gif_path). (layout, gif_path)) (results_sampling sampling_demo_sweep) =
     [(''cramped_room'', ''generalization/cramped_room/eval_sampling.gif''),
      (''asymmetric_advantages'', ''generalization/asymmetric_advantages/eval_sampling.gif''),
      (''forced_coordination'', ''generalization/forced_coordination/eval_sampling.gif'')]"
  unfolding sampling_demo_sweep_def by (simp add: demo_defs)

lemma sampling_demo_listing:
  "drop 13 (stdout sampling_demo) =
     [Line [Lit ''Layout: '', Lit ''cramped_room''],
      Line [Lit ''GIF not found: '', Lit ''generalization/cramped_room/eval_sampling.gif''],
      Line [Lit ''Layout: '', Lit ''asymmetric_advantages''],
      Line [Lit ''GIF not found: '', Lit ''generalization/asymmetric_advantages/eval_sampling.gif''],
      Line [Lit ''Layout: '', Lit ''forced_coordination''],
      Line [Lit ''GIF not found: '', Lit ''generalization/forced_coordination/eval_sampling.gif'']]"
  unfolding sampling_demo_def sampling_demo_sweep_def
  by (simp add: demo_defs)

section \<open>The claims\<close>



text \<open>
  C2. With a single run the layout's entry has the reward of that run as its mean and a
  standard deviation of exactly 0. The aggregation itself raises nothing: when the
  evaluation of the layout ends with an exception, that exception is the outcome of the
  last call of a collaborator, and no entry is appended.
\<close>

theorem single_run_statistics:
  assumes "sampling_layout ext pw vw 1 layout s = (res, s')"
  shows "case res of
           Inr u \<Rightarrow>
             (\<exists>r. episode_rewards (new_events s s') = [r] \<and>
                  results_sampling s' = results_sampling s @
                    [(layout, Val r, Val 0, sampling_recorded_path layout)])
         | Inl e \<Rightarrow>
             (\<exists>c. last (trace s') = (c, Raised e)) \<and> results_sampling s' = results_sampling s"
proof (cases res)
  case (Inl e)
  with assms have run: "sampling_layout ext pw vw 1 layout s = (Inl e, s')" by simp
  from sampling_layout_raise [OF run] obtain evs where evs:
    "same_results s s'" "trace s' = trace s @ evs"
    "section_events (Inl e) [layout] pw vw False (\<lambda>i. i = 0)
       (\<lambda>i. if i = 0 then Some (sampling_gif_path layout) else None) 1 evs"
    by blast
  from section_events_raise_last [OF evs(3)] evs(2)
  have "\<exists>c. last (trace s') = (c, Raised e)" by auto
  with evs(1) Inl show ?thesis by (simp add: same_results_def)
next
  case (Inr u)
  with assms have run: "sampling_layout ext pw vw 1 layout s = (Inr (), s')" by simp
  from sampling_layout_ok [OF run] obtain agent env rs where rs:
    "length rs = 1"
    "trace s' = trace s @ prepare_events [layout] pw vw agent env @
        run_events agent env False (\<lambda>i. i = 0)
          (\<lambda>i. if i = 0 then Some (sampling_gif_path layout) else None) rs"
    "results_sampling s' = results_sampling s @
        [(layout, np_mean rs, np_std rs, sampling_recorded_path layout)]"
    by blast
  from rs(1) obtain r where r: "rs = [r]" by (cases rs) auto
  from rs(2) have ev: "episode_rewards (new_events s s') = rs"
    by (simp add: new_events_append episode_rewards_append episode_rewards_prepare
          episode_rewards_run)
  have "np_mean [r] = Val r" "np_std [r] = Val 0"
    by (rule np_mean_single, rule np_std_single)
  with ev r rs(3) Inr show ?thesis by simp
qed

theorem single_run_statistics_witness:
  "fst (sampling_layout sim_externs ''p.h5'' ''v.h5'' 1 ''cramped_room''
          (init_state (sim_world [(''cramped_room'', 96, 6)]
             [(''p.h5'', 96, 6), (''v.h5'', 96, 6)] [dbl 7]))) = Inr () \<and>
   results_sampling (snd (sampling_layout sim_externs ''p.h5'' ''v.h5'' 1 ''cramped_room''
          (init_state (sim_world [(''cramped_room'', 96, 6)]
             [(''p.h5'', 96, 6), (''v.h5'', 96, 6)] [dbl 7])))) =
     [(''cramped_room'', Val (dbl 7), Val 0, ''generalization/cramped_room/eval_sampling.gif'')]"
proof -
  let ?s = "init_state (sim_world [(''cramped_room'', 96, 6)]
             [(''p.h5'', 96, 6), (''v.h5'', 96, 6)] [dbl 7])"
  let ?X = "sampling_layout sim_externs ''p.h5'' ''v.h5'' 1 ''cramped_room'' ?s"
  have run: "fst ?X = Inr ()"
    by (simp add: nb_defs)
  have ev: "episode_rewards (new_events ?s (snd ?X)) = [dbl 7]"
    by (simp add: nb_defs episode_rewards_def)
  have old: "results_sampling ?s = []"
    by (simp add: init_state_def)
  have eq: "?X = (fst ?X, snd ?X)" by simp
  from single_run_statistics [OF eq] run ev old
  have "results_sampling (snd ?X) =
     [(''cramped_room'', Val (dbl 7), Val 0, sampling_recorded_path ''cramped_room'')]"
    by simp
  with run show ?thesis by (simp add: sampling_recorded_path_def)
qed

text \<open>
  C3. A sweep that runs to its end leaves one entry per layout in its results, in the
  order of the layouts: the greedy sweep in \<open>results_greedy\<close>, the sampling sweep in
  \<open>results_sampling\<close>.
\<close>

theorem sweep_results_follow_layouts:
  "(greedy_sweep ext pw vw layouts s = (Inr (), s1) \<longrightarrow>
      map fst (results_greedy s1) = layouts) \<and>
   (sampling_sweep ext pw vw n layouts s = (Inr (), s2) \<longrightarrow>
      map fst (results_sampling s2) = layouts)"
proof (intro conjI impI)
  assume "greedy_sweep ext pw vw layouts s = (Inr (), s1)"
  then have run: "for_each layouts (greedy_layout ext pw vw) (s\<lparr>results_greedy := []\<rparr>) = (Inr (), s1)"
    by (simp add: greedy_sweep_def)
  have "map fst (results_greedy s1) = map fst (results_greedy (s\<lparr>results_greedy := []\<rparr>)) @ layouts"
  proof (rule for_each_ok_names [OF _ run])
    fix x :: string and t1 t2 :: "'a nstate"
    assume "greedy_layout ext pw vw x t1 = (Inr (), t2)"
    from greedy_layout_ok [OF this]
    show "map fst (results_greedy t2) = map fst (results_greedy t1) @ [x]" by auto
  qed
  then show "map fst (results_greedy s1) = layouts" by simp
next
  assume "sampling_sweep ext pw vw n layouts s = (Inr (), s2)"
  then have run: "for_each layouts (sampling_layout ext pw vw n) (s\<lparr>results_sampling := []\<rparr>) = (Inr (), s2)"
    by (simp add: sampling_sweep_def)
  have "map fst (results_sampling s2) = map fst (results_sampling (s\<lparr>results_sampling := []\<rparr>)) @ layouts"
  proof (rule for_each_ok_names [OF _ run])
    fix x :: string and t1 t2 :: "'a nstate"
    assume "sampling_layout ext pw vw n x t1 = (Inr (), t2)"
    from sampling_layout_ok [OF this]
    show "map fst (results_sampling t2) = map fst (results_sampling t1) @ [x]" by auto
  qed
  then show "map fst (results_sampling s2) = layouts" by simp
qed

theorem sweep_results_follow_layouts_witness:
  "fst (greedy_sweep sim_externs ''p.h5'' ''v.h5'' [''A'', ''B'', ''C'']
          (init_state (sim_world [(''A'', 96, 6), (''B'', 96, 6), (''C'', 96, 6)]
             [(''p.h5'', 96, 6), (''v.h5'', 96, 6)] [dbl 1, dbl 2, dbl 3]))) = Inr () \<and>
   map fst (results_greedy (snd (greedy_sweep sim_externs ''p.h5'' ''v.h5'' [''A'', ''B'', ''C'']
          (init_state (sim_world [(''A'', 96, 6), (''B'', 96, 6), (''C'', 96, 6)]
             [(''p.h5'', 96, 6), (''v.h5'', 96, 6)] [dbl 1, dbl 2, dbl 3]))))) = [''A'', ''B'', ''C''] \<and>
   fst (sampling_sweep sim_externs ''p.h5'' ''v.h5'' 2 [''A'', ''B'', ''C'']
          (init_state (sim_world [(''A'', 96, 6), (''B'', 96, 6), (''C'', 96, 6)]
             [(''p.h5'', 96, 6), (''v.h5'', 96, 6)] [dbl 1, dbl 2, dbl 3, dbl 4, dbl 5, dbl 6]))) = Inr () \<and>
   map fst (results_sampling (snd (sampling_sweep sim_externs ''p.h5'' ''v.h5'' 2 [''A'', ''B'', ''C'']
          (init_state (sim_world [(''A'', 96, 6), (''B'', 96, 6), (''C'', 96, 6)]
             [(''p.h5'', 96, 6), (''v.h5'', 96, 6)] [dbl 1, dbl 2, dbl 3, dbl 4, dbl 5, dbl 6]))))) = [''A'', ''B'', ''C'']"
proof -
  let ?G = "greedy_sweep sim_externs ''p.h5'' ''v.h5'' [''A'', ''B'', ''C'']
          (init_state (sim_world [(''A'', 96, 6), (''B'', 96, 6), (''C'', 96, 6)]
             [(''p.h5'', 96, 6), (''v.h5'', 96, 6)] [dbl 1, dbl 2, dbl 3]))"
  let ?S = "sampling_sweep sim_externs ''p.h5'' ''v.h5'' 2 [''A'', ''B'', ''C'']
          (init_state (sim_world [(''A'', 96, 6), (''B'', 96, 6), (''C'', 96, 6)]
             [(''p.h5'', 96, 6), (''v.h5'', 96, 6)] [dbl 1, dbl 2, dbl 3, dbl 4, dbl 5, dbl 6]))"
  have g: "fst ?G = Inr ()"
    by (simp add: nb_defs)
  have s: "fst ?S = Inr ()"
    by (simp add: nb_defs upt_rec)
  from g have geq: "?G = (Inr (), snd ?G)" by (simp add: prod_eq_iff)
  from s have seq: "?S = (Inr (), snd ?S)" by (simp add: prod_eq_iff)
  from sweep_results_follow_layouts [of sim_externs "''p.h5''" "''v.h5''" "[''A'', ''B'', ''C'']"
      _ "snd ?G"] geq
  have "map fst (results_greedy (snd ?G)) = [''A'', ''B'', ''C'']" by blast
  moreover
  from sweep_results_follow_layouts [of sim_externs "''p.h5''" "''v.h5''" "[''A'', ''B'', ''C'']"
      _ _ 2 "snd ?S"] seq
  have "map fst (results_sampling (snd ?S)) = [''A'', ''B'', ''C'']" by blast
  ultimately show ?thesis using g s by simp
qed




text \<open>
  C5. GREEDY selection is a function of the distribution alone: whatever the state of the
  random generator, and whatever the sampler, a non-empty distribution yields the same
  action, the generator is left as it was, and the action is a position of the highest
  probability with every earlier position strictly less probable (ties go to the lowest
  index). The witness is the distribution 0.3, 0.4, 0.4, where position 1 wins the tie.
\<close>

theorem greedy_selection_deterministic:
  assumes "probs \<noteq> []"
  shows "\<exists>a. (\<forall>draw g. select_action GREEDY draw probs g = (Some a, g)) \<and>
             a < length probs \<and>
             (\<forall>j<length probs. probs ! j \<le> probs ! a) \<and>
             (\<forall>j<a. probs ! j < probs ! a)"
  using greedy_action_first_max [OF assms] by (auto simp: select_action_def)

theorem greedy_selection_deterministic_witness:
  "[0.3, 0.4, 0.4 :: real] \<noteq> [] \<and>
   select_action GREEDY (\<lambda>p g. (None, Suc g)) [0.3, 0.4, 0.4] (0::nat) = (Some 1, 0) \<and>
   select_action GREEDY (\<lambda>p g. (Some 2, g)) [0.3, 0.4, 0.4] (5::nat) = (Some 1, 5)"
proof -
  have ne: "[0.3, 0.4, 0.4 :: real] \<noteq> []" by simp
  from greedy_selection_deterministic [OF ne] obtain a where a:
    "\<And>draw (g::nat). select_action GREEDY draw [0.3, 0.4, 0.4] g = (Some a, g)"
    by blast
  have "select_action GREEDY (\<lambda>p g. (None, Suc g)) [0.3, 0.4, 0.4] (0::nat) = (Some 1, 0)"
    by (simp add: select_action_def greedy_action_def)
  with a [of "\<lambda>p g. (None, Suc g)" 0] have "a = 1" by simp
  with a ne show ?thesis by simp
qed

text \<open>
  C6. While one layout is evaluated in sampling mode, at most one environment and at most
  one agent are constructed, and every call of the episode runner is given that agent
  and that environment. When the evaluation of the layout runs to its end, exactly one
  environment and one agent have been constructed and the episode runner has been
  called \<open>N_RUNS\<close> times.
\<close>

theorem one_agent_and_environment_per_layout:
  assumes "sampling_layout ext pw vw n layout s = (res, s')"
  shows "let evs = new_events s s' in
           length (created_envs evs) \<le> 1 \<and> length (created_agents evs) \<le> 1 \<and>
           set (map (\<lambda>(agent, env, rest). (agent, env)) (episode_calls evs)) \<subseteq>
             set (created_agents evs) \<times> set (created_envs evs) \<and>
           (res = Inr () \<longrightarrow>
              length (created_envs evs) = 1 \<and> length (created_agents evs) = 1 \<and>
              length (episode_calls evs) = n)"
proof -
  from sampling_layout_events [OF assms] obtain evs where evs:
    "trace s' = trace s @ evs"
    "section_events res [layout] pw vw False (\<lambda>i. i = 0)
       (\<lambda>i. if i = 0 then Some (sampling_gif_path layout) else None) n evs"
    by blast
  from evs(1) have ne: "new_events s s' = evs" by (rule new_events_append)
  from section_episode_calls [OF evs(2)] obtain agent env k where k:
    "k \<le> n" "res = Inr () \<longrightarrow> k = n"
    "episode_calls evs = map (\<lambda>i. (agent, env, False, i = 0,
        if i = 0 then Some (sampling_gif_path layout) else None)) [0 ..< k]"
    "0 < k \<longrightarrow> created_agents evs = [agent] \<and> created_envs evs = [env] \<and>
       agent_obs_dim agent = env_obs_dim env \<and> agent_act_dim agent = env_act_dim env"
    by blast
  from k(4) have "0 < k \<longrightarrow> created_agents evs = [agent] \<and> created_envs evs = [env]"
    by simp
  from episode_pairs_created [OF k(3) this]
  have pairs: "set (map (\<lambda>(agent, env, rest). (agent, env)) (episode_calls evs)) \<subseteq>
           set (created_agents evs) \<times> set (created_envs evs)" .
  from k(2) k(3) have len: "res = Inr () \<longrightarrow> length (episode_calls evs) = n" by simp
  from section_created [OF evs(2)] pairs len ne show ?thesis
    by (simp add: Let_def)
qed

theorem one_agent_and_environment_per_layout_witness:
  "fst (sampling_layout sim_externs ''p.h5'' ''v.h5'' 3 ''cramped_room''
          (init_state (sim_world [(''cramped_room'', 96, 6)]
             [(''p.h5'', 96, 6), (''v.h5'', 96, 6)] [dbl 1, dbl 2, dbl 3]))) = Inr () \<and>
   length (created_envs (new_events
          (init_state (sim_world [(''cramped_room'', 96, 6)]
             [(''p.h5'', 96, 6), (''v.h5'', 96, 6)] [dbl 1, dbl 2, dbl 3]))
          (snd (sampling_layout sim_externs ''p.h5'' ''v.h5'' 3 ''cramped_room''
          (init_state (sim_world [(''cramped_room'', 96, 6)]
             [(''p.h5'', 96, 6), (''v.h5'', 96, 6)] [dbl 1, dbl 2, dbl 3])))))) = 1 \<and>
   length (created_agents (new_events
          (init_state (sim_world [(''cramped_room'', 96, 6)]
             [(''p.h5'', 96, 6), (''v.h5'', 96, 6)] [dbl 1, dbl 2, dbl 3]))
          (snd (sampling_layout sim_externs ''p.h5'' ''v.h5'' 3 ''cramped_room''
          (init_state (sim_world [(''cramped_room'', 96, 6)]
             [(''p.h5'', 96, 6), (''v.h5'', 96, 6)] [dbl 1, dbl 2, dbl 3])))))) = 1 \<and>
   length (episode_calls (new_events
          (init_state (sim_world [(''cramped_room'', 96, 6)]
             [(''p.h5'', 96, 6), (''v.h5'', 96, 6)] [dbl 1, dbl 2, dbl 3]))
          (snd (sampling_layout sim_externs ''p.h5'' ''v.h5'' 3 ''cramped_room''
          (init_state (sim_world [(''cramped_room'', 96, 6)]
             [(''p.h5'', 96, 6), (''v.h5'', 96, 6)] [dbl 1, dbl 2, dbl 3])))))) = 3"
proof -
  let ?s = "init_state (sim_world [(''cramped_room'', 96, 6)]
             [(''p.h5'', 96, 6), (''v.h5'', 96, 6)] [dbl 1, dbl 2, dbl 3])"
  let ?X = "sampling_layout sim_externs ''p.h5'' ''v.h5'' 3 ''cramped_room'' ?s"
  have run: "fst ?X = Inr ()"
    by (simp add: nb_defs upt_rec)
  have eq: "?X = (fst ?X, snd ?X)" by simp
  from one_agent_and_environment_per_layout [OF eq] run show ?thesis
    by (simp add: Let_def)
qed

text \<open>
  C7. In the sampling evaluation of a layout the run with index 0 is the only one that
  asks for a GIF: it passes \<open>save_gif=True\<close> and the layout's GIF path; every later
  run passes \<open>save_gif=False\<close> and no path.
\<close>

theorem gif_only_for_first_run:
  assumes "sampling_layout ext pw vw n layout s = (res, s')"
  shows "length (episode_captures (new_events s s')) \<le> n \<and>
         (res = Inr () \<longrightarrow> length (episode_captures (new_events s s')) = n) \<and>
         (0 < length (episode_captures (new_events s s')) \<longrightarrow>
            episode_captures (new_events s s') ! 0 = (True, Some (sampling_gif_path layout))) \<and>
         (\<forall>i. 0 < i \<and> i < length (episode_captures (new_events s s')) \<longrightarrow>
            episode_captures (new_events s s') ! i = (False, None))"
proof -
  from sampling_layout_events [OF assms] obtain evs where evs:
    "trace s' = trace s @ evs"
    "section_events res [layout] pw vw False (\<lambda>i. i = 0)
       (\<lambda>i. if i = 0 then Some (sampling_gif_path layout) else None) n evs"
    by blast
  from evs(1) have ne: "new_events s s' = evs" by (rule new_events_append)
  from section_episode_calls [OF evs(2)] obtain agent env k where k:
    "k \<le> n" "res = Inr () \<longrightarrow> k = n"
    "episode_calls evs = map (\<lambda>i. (agent, env, False, i = 0,
        if i = 0 then Some (sampling_gif_path layout) else None)) [0 ..< k]"
    by blast
  from k(3) have caps: "episode_captures evs =
      map (\<lambda>i. (i = 0, if i = 0 then Some (sampling_gif_path layout) else None)) [0 ..< k]"
    by (simp add: episode_captures_def comp_def)
  from k(1) k(2) show ?thesis unfolding ne caps by simp
qed

theorem gif_only_for_first_run_witness:
  "fst (sampling_layout sim_externs ''p.h5'' ''v.h5'' 3 ''cramped_room''
          (init_state (sim_world [(''cramped_room'', 96, 6)]
             [(''p.h5'', 96, 6), (''v.h5'', 96, 6)] [dbl 1, dbl 2, dbl 3]))) = Inr () \<and>
   episode_captures (new_events
          (init_state (sim_world [(''cramped_room'', 96, 6)]
             [(''p.h5'', 96, 6), (''v.h5'', 96, 6)] [dbl 1, dbl 2, dbl 3]))
          (snd (sampling_layout sim_externs ''p.h5'' ''v.h5'' 3 ''cramped_room''
          (init_state (sim_world [(''cramped_room'', 96, 6)]
             [(''p.h5'', 96, 6), (''v.h5'', 96, 6)] [dbl 1, dbl 2, dbl 3]))))) =
     [(True, Some ''demo/generalization/cramped_room_eval_sampling.gif''),
      (False, None), (False, None)]"
proof -
  let ?s = "init_state (sim_world [(''cramped_room'', 96, 6)]
             [(''p.h5'', 96, 6), (''v.h5'', 96, 6)] [dbl 1, dbl 2, dbl 3])"
  let ?X = "sampling_layout sim_externs ''p.h5'' ''v.h5'' 3 ''cramped_room'' ?s"
  let ?caps = "episode_captures (new_events ?s (snd ?X))"
  have run: "fst ?X = Inr ()"
    by (simp add: nb_defs upt_rec)
  have eq: "?X = (fst ?X, snd ?X)" by simp
  note all = gif_only_for_first_run [OF eq]
  from all run have len: "length ?caps = 3" by blast
  from all len have first: "?caps ! 0 = (True, Some (sampling_gif_path ''cramped_room''))"
    by simp
  from all have later: "\<And>i. 0 < i \<Longrightarrow> i < length ?caps \<Longrightarrow> ?caps ! i = (False, None)"
    by blast
  have "?caps ! 1 = (False, None)" "?caps ! 2 = (False, None)"
    by (rule later; simp only: len; simp)+
  from len first this have "?caps = [(True, Some (sampling_gif_path ''cramped_room'')),
      (False, None), (False, None)]"
    by (rule list3_eq)
  with run show ?thesis by (simp add: sampling_gif_path_def)
qed

text \<open>
  C8. The notebook does not do what the claim says, by two slips. Run on the three
  layouts of the notebook, the GIF listing of the greedy report prints
  \<open>Layout: cramped_room\<close> above the GIF of every layout (the f-string of that
  \<open>print\<close> has no placeholder, where the sampling report prints the layout's name).
  And the sampling sweep saves the GIF of a layout under
  \<open>demo/generalization/<layout>_eval_sampling.gif\<close> but records
  \<open>generalization/<layout>/eval_sampling.gif\<close> in the layout's result (where the greedy
  sweep records the path it saved under), so that the sampling report looks for files
  that were never written.
\<close>

theorem report_slips:
  "drop 13 (stdout greedy_demo) =
     [Line [Lit ''Layout: cramped_room''],
      Image ''demo/generalization/cramped_room_eval_greedy.gif'',
      Line [Lit ''Layout: cramped_room''],
      Image ''demo/generalization/asymmetric_advantages_eval_greedy.gif'',
      Line [Lit ''Layout: cramped_room''],
      Image ''demo/generalization/forced_coordination_eval_greedy.gif''] \<and>
   sim_files (world sampling_demo_sweep) =
     [''demo/generalization/cramped_room_eval_sampling.gif'',
      ''demo/generalization/asymmetric_advantages_eval_sampling.gif'',
      ''demo/generalization/forced_coordination_eval_sampling.gif''] \<and>
   map (\<lambda>(layout, mean, std, gif_path). (layout, gif_path)) (results_sampling sampling_demo_sweep) =
     [(''cramped_room'', ''generalization/cramped_room/eval_sampling.gif''),
      (''asymmetric_advantages'', ''generalization/asymmetric_advantages/eval_sampling.gif''),
      (''forced_coordination'', ''generalization/forced_coordination/eval_sampling.gif'')] \<and>
   drop 13 (stdout sampling_demo) =
     [Line [Lit ''Layout: '', Lit ''cramped_room''],
      Line [Lit ''GIF not found: '', Lit ''generalization/cramped_room/eval_sampling.gif''],
      Line [Lit ''Layout: '', Lit ''asymmetric_advantages''],
      Line [Lit ''GIF not found: '', Lit ''generalization/asymmetric_advantages/eval_sampling.gif''],
      Line [Lit ''Layout: '', Lit ''forced_coordination''],
      Line [Lit ''GIF not found: '', Lit ''generalization/forced_coordination/eval_sampling.gif'']]"
  using greedy_demo_listing sampling_demo_files sampling_demo_recorded sampling_demo_listing
  by (simp only: simp_thms)

text \<open>
  C9. In each evaluation section (the single-layout cell, the body of the greedy sweep,
  the body of the sampling sweep) the weights are loaded before the episode runner is
  called: scanning the events of the section, every call of \<open>evaluate_policy\<close> comes
  after \<open>load_weights\<close> has returned for both networks of its agent. When
  \<open>load_weights\<close> raises (a missing file, weights of another dimension), the section
  ends with that exception and the episode runner has not been called at all. The
  witness is a 62-dimensional environment with a checkpoint of 96-dimensional weights.
\<close>

theorem weights_loaded_before_episodes:
  assumes "cramped_room_cell ext s = (res, s') \<or>
           greedy_layout ext pw vw layout s = (res, s') \<or>
           sampling_layout ext pw vw n layout s = (res, s')"
  shows "loads_precede_runs [] (new_events s s') \<and>
         (\<forall>e\<in>set (failed_loads (new_events s s')).
            res = Inl e \<and> episode_calls (new_events s s') = [])"
proof -
  from any_section_events [OF assms] obtain ls pw' vw' g sg gp m where
    "section_events res ls pw' vw' g sg gp m (new_events s s')"
    by blast
  from section_loads [OF this] show ?thesis .
qed

theorem weights_loaded_before_episodes_witness:
  "fst (sampling_layout sim_externs ''p.h5'' ''v.h5'' 10 ''cramped_room''
          (init_state (sim_world [(''cramped_room'', 62, 6)]
             [(''p.h5'', 96, 6), (''v.h5'', 96, 6)] [dbl 1, dbl 2, dbl 3]))) =
     Inl (ValueError ''shape mismatch'') \<and>
   failed_loads (new_events
          (init_state (sim_world [(''cramped_room'', 62, 6)]
             [(''p.h5'', 96, 6), (''v.h5'', 96, 6)] [dbl 1, dbl 2, dbl 3]))
          (snd (sampling_layout sim_externs ''p.h5'' ''v.h5'' 10 ''cramped_room''
          (init_state (sim_world [(''cramped_room'', 62, 6)]
             [(''p.h5'', 96, 6), (''v.h5'', 96, 6)] [dbl 1, dbl 2, dbl 3]))))) =
     [ValueError ''shape mismatch''] \<and>
   episode_calls (new_events
          (init_state (sim_world [(''cramped_room'', 62, 6)]
             [(''p.h5'', 96, 6), (''v.h5'', 96, 6)] [dbl 1, dbl 2, dbl 3]))
          (snd (sampling_layout sim_externs ''p.h5'' ''v.h5'' 10 ''cramped_room''
          (init_state (sim_world [(''cramped_room'', 62, 6)]
             [(''p.h5'', 96, 6), (''v.h5'', 96, 6)] [dbl 1, dbl 2, dbl 3]))))) = [] \<and>
   loads_precede_runs [] (new_events
          (init_state (sim_world [(''cramped_room'', 62, 6)]
             [(''p.h5'', 96, 6), (''v.h5'', 96, 6)] [dbl 1, dbl 2, dbl 3]))
          (snd (sampling_layout sim_externs ''p.h5'' ''v.h5'' 10 ''cramped_room''
          (init_state (sim_world [(''cramped_room'', 62, 6)]
             [(''p.h5'', 96, 6), (''v.h5'', 96, 6)] [dbl 1, dbl 2, dbl 3])))))"
proof -
  let ?s = "init_state (sim_world [(''cramped_room'', 62, 6)]
             [(''p.h5'', 96, 6), (''v.h5'', 96, 6)] [dbl 1, dbl 2, dbl 3])"
  let ?X = "sampling_layout sim_externs ''p.h5'' ''v.h5'' 10 ''cramped_room'' ?s"
  have fl: "failed_loads (new_events ?s (snd ?X)) = [ValueError ''shape mismatch'']"
    by (simp add: nb_defs failed_loads_def)
  have "?X = (fst ?X, snd ?X)" by simp
  then have "cramped_room_cell sim_externs ?s = (fst ?X, snd ?X) \<or>
           greedy_layout sim_externs ''p.h5'' ''v.h5'' ''cramped_room'' ?s = (fst ?X, snd ?X) \<or>
           sampling_layout sim_externs ''p.h5'' ''v.h5'' 10 ''cramped_room'' ?s = (fst ?X, snd ?X)"
    by blast
  note all = weights_loaded_before_episodes [OF this]
  from all fl have "fst ?X = Inl (ValueError ''shape mismatch'')"
    "episode_calls (new_events ?s (snd ?X)) = []"
    by simp_all
  with all fl show ?thesis by blast
qed

text \<open>
  C10. In each evaluation section the agent constructor is given the observation and
  action dimensions of the environment constructed in that section, and every call of the
  episode runner receives the agent and the environment of that section, whose
  observation and action dimensions agree. The agent's construction cannot bring in a
  mismatch of dimensions.
\<close>

theorem agent_dimensions_read_from_environment:
  assumes "cramped_room_cell ext s = (res, s') \<or>
           greedy_layout ext pw vw layout s = (res, s') \<or>
           sampling_layout ext pw vw n layout s = (res, s')"
  shows "agent_new_args (new_events s s') = map env_dims (created_envs (new_events s s')) \<and>
         list_all dims_match (episode_calls (new_events s s')) \<and>
         set (map (\<lambda>(agent, env, rest). (agent, env)) (episode_calls (new_events s s'))) \<subseteq>
           set (created_agents (new_events s s')) \<times> set (created_envs (new_events s s'))"
proof -
  from any_section_events [OF assms] obtain ls pw' vw' g sg gp m where
    sec: "section_events res ls pw' vw' g sg gp m (new_events s s')"
    by blast
  from section_episode_calls [OF sec] obtain agent env k where k:
    "episode_calls (new_events s s') = map (\<lambda>i. (agent, env, g, sg i, gp i)) [0 ..< k]"
    "0 < k \<longrightarrow> created_agents (new_events s s') = [agent] \<and>
       created_envs (new_events s s') = [env] \<and>
       agent_obs_dim agent = env_obs_dim env \<and> agent_act_dim agent = env_act_dim env"
    by blast
  from k(2) have "0 < k \<longrightarrow> created_agents (new_events s s') = [agent] \<and>
       created_envs (new_events s s') = [env]"
    by simp
  from episode_pairs_created [OF k(1) this]
  have pairs: "set (map (\<lambda>(agent, env, rest). (agent, env)) (episode_calls (new_events s s'))) \<subseteq>
           set (created_agents (new_events s s')) \<times> set (created_envs (new_events s s'))" .
  have "list_all dims_match (episode_calls (new_events s s'))"
  proof (cases "k = 0")
    case True
    with k(1) show ?thesis by simp
  next
    case False
    with k show ?thesis by (simp add: list_all_iff dims_match_def)
  qed
  with section_created [OF sec] pairs show ?thesis by simp
qed

theorem agent_dimensions_read_from_environment_witness:
  "created_envs (new_events
          (init_state (sim_world [(''cramped_room'', 96, 6)]
             [(''p.h5'', 96, 6), (''v.h5'', 96, 6)] [dbl 5]))
          (snd (greedy_layout sim_externs ''p.h5'' ''v.h5'' ''cramped_room''
          (init_state (sim_world [(''cramped_room'', 96, 6)]
             [(''p.h5'', 96, 6), (''v.h5'', 96, 6)] [dbl 5]))))) =
     [\<lparr>env_id = 0, env_layouts = [''cramped_room''], env_obs_dim = 96, env_act_dim = 6\<rparr>] \<and>
   agent_new_args (new_events
          (init_state (sim_world [(''cramped_room'', 96, 6)]
             [(''p.h5'', 96, 6), (''v.h5'', 96, 6)] [dbl 5]))
          (snd (greedy_layout sim_externs ''p.h5'' ''v.h5'' ''cramped_room''
          (init_state (sim_world [(''cramped_room'', 96, 6)]
             [(''p.h5'', 96, 6), (''v.h5'', 96, 6)] [dbl 5]))))) = [(96, 6)] \<and>
   list_all dims_match (episode_calls (new_events
          (init_state (sim_world [(''cramped_room'', 96, 6)]
             [(''p.h5'', 96, 6), (''v.h5'', 96, 6)] [dbl 5]))
          (snd (greedy_layout sim_externs ''p.h5'' ''v.h5'' ''cramped_room''
          (init_state (sim_world [(''cramped_room'', 96, 6)]
             [(''p.h5'', 96, 6), (''v.h5'', 96, 6)] [dbl 5]))))))"
proof -
  let ?s = "init_state (sim_world [(''cramped_room'', 96, 6)]
             [(''p.h5'', 96, 6), (''v.h5'', 96, 6)] [dbl 5])"
  let ?X = "greedy_layout sim_externs ''p.h5'' ''v.h5'' ''cramped_room'' ?s"
  have envs: "created_envs (new_events ?s (snd ?X)) =
     [\<lparr>env_id = 0, env_layouts = [''cramped_room''], env_obs_dim = 96, env_act_dim = 6\<rparr>]"
    by (simp add: nb_defs created_envs_def)
  have "?X = (fst ?X, snd ?X)" by simp
  then have "cramped_room_cell sim_externs ?s = (fst ?X, snd ?X) \<or>
           greedy_layout sim_externs ''p.h5'' ''v.h5'' ''cramped_room'' ?s = (fst ?X, snd ?X) \<or>
           sampling_layout sim_externs ''p.h5'' ''v.h5'' 0 ''cramped_room'' ?s = (fst ?X, snd ?X)"
    by blast
  note all = agent_dimensions_read_from_environment [OF this]
  from all envs have "agent_new_args (new_events ?s (snd ?X)) = [(96, 6)]"
    by (simp add: env_dims_def)
  with all envs show ?thesis by blast
qed

end
